theory Spec2Isabelle
  imports Complex_Main
begin

section \<open>The dynamic manager of marrow.mailer: a self-scaling worker pool\<close>

text \<open>
  The development follows \<^verbatim>\<open>marrow/mailer/manager/dynamic.py\<close>: the work item, the
  worker loop \<^verbatim>\<open>thread_worker\<close>, the class \<^verbatim>\<open>ScalingPoolExecutor\<close> and the
  configuration part of \<^verbatim>\<open>DynamicManager\<close>.

  Conventions of the embedding.
  \<^item> Python numbers are exact: integers are \<open>int\<close>, the numbers that may be floats
    (the configured timeout, the parameters of the worker loop) are \<open>rat\<close>. Rounding of
    floating-point arithmetic is not modelled.
  \<^item> An exception is a value: a function that may raise returns \<open>py_error + 'a\<close>, with
    \<open>Inl\<close> for the raise.
  \<^item> Every function is a sequential run of its body on the shared state. The state that the
    executor, its queue and its workers share is one record; a blocking wait on an empty
    queue expires, since nothing else runs in between. A started thread may run between
    two statements of the function that started it; \<^verbatim>\<open>_spawn\<close> is therefore given
    statement by statement.
  \<^item> A callable is a function from its arguments to either the exception it raises
    (\<open>Inl\<close>) or the value it returns (\<open>Inr\<close>); calls are recorded in a log so that
    "never invoked" can be stated.
\<close>

subsection \<open>Exceptions\<close>

datatype py_error =
  Empty | ValueError | RuntimeError | ZeroDivisionError | OverflowError | InvalidStateError

text \<open>
  \<^verbatim>\<open>float(x)\<close>. The largest float is \<open>2^1024 - 2^971\<close>; an integer whose magnitude is
  \<open>2^1024 - 2^970\<close> or more rounds beyond it, and its conversion raises
  \<^verbatim>\<open>OverflowError\<close>. A number below that magnitude is kept as it is (rounding is not
  modelled).
\<close>

definition float_limit :: int where
  "float_limit = 2 ^ 1024 - 2 ^ 970"

definition py_float :: "rat \<Rightarrow> py_error + rat" where
  "py_float x = (if of_int float_limit \<le> \<bar>x\<bar> then Inl OverflowError else Inr x)"

subsection \<open>The result handle\<close>

text \<open>
  Modelled from the spec: the future (result handle) is \<^verbatim>\<open>concurrent.futures.Future\<close>
  of the standard library, which is not part of the source file. The spec gives it one
  terminal state out of result, exception and cancelled, reached at most once, and says
  that marking a cancelled future as running fails. The states below are the ones of the
  standard library; \<open>FINISHED\<close> carries the result or the exception it was resolved with.
  Both \<open>CANCELLED\<close> and \<open>CANCELLED_AND_NOTIFIED\<close> are what the spec calls cancelled.
\<close>

datatype ('e, 'r) future =
    PENDING
  | RUNNING
  | CANCELLED
  | CANCELLED_AND_NOTIFIED
  | FINISHED_result 'r
  | FINISHED_exception 'e

definition cancelled :: "('e, 'r) future \<Rightarrow> bool" where
  "cancelled f = (f = CANCELLED \<or> f = CANCELLED_AND_NOTIFIED)"

text \<open>
  Modelled from the spec: \<^verbatim>\<open>Future.set_running_or_notify_cancel\<close>. It answers
  \<open>False\<close> on a cancelled future (and notifies the waiters), \<open>True\<close> on a pending one,
  which becomes running, and raises on any other state.
\<close>

definition set_running_or_notify_cancel :: "('e, 'r) future \<Rightarrow> py_error + (bool \<times> ('e, 'r) future)" where
  "set_running_or_notify_cancel f =
     (case f of
        CANCELLED \<Rightarrow> Inr (False, CANCELLED_AND_NOTIFIED)
      | PENDING \<Rightarrow> Inr (True, RUNNING)
      | _ \<Rightarrow> Inl RuntimeError)"

text \<open>
  Modelled from the spec: \<^verbatim>\<open>Future.set_result\<close> and \<^verbatim>\<open>Future.set_exception\<close>
  resolve a future that is neither cancelled nor finished, and raise otherwise: a future
  is resolved at most once.
\<close>

definition set_result :: "('e, 'r) future \<Rightarrow> 'r \<Rightarrow> py_error + ('e, 'r) future" where
  "set_result f r =
     (case f of
        PENDING \<Rightarrow> Inr (FINISHED_result r)
      | RUNNING \<Rightarrow> Inr (FINISHED_result r)
      | _ \<Rightarrow> Inl InvalidStateError)"

definition set_exception :: "('e, 'r) future \<Rightarrow> 'e \<Rightarrow> py_error + ('e, 'r) future" where
  "set_exception f e =
     (case f of
        PENDING \<Rightarrow> Inr (FINISHED_exception e)
      | RUNNING \<Rightarrow> Inr (FINISHED_exception e)
      | _ \<Rightarrow> Inl InvalidStateError)"

subsection \<open>The work item\<close>

text \<open>
  \<^verbatim>\<open>class WorkItem\<close> with its slots \<^verbatim>\<open>future, fn, args, kwargs\<close>. The positional and
  the keyword arguments are one value of type \<open>'a\<close>.
\<close>

record ('a, 'e, 'r) WorkItem =
  future :: "('e, 'r) future"
  fn :: "'a \<Rightarrow> 'e + 'r"
  args :: 'a

text \<open>What a run of a work item did, in order: the call and the resolution of the future.\<close>

datatype ('a, 'e, 'r) effect = Invoked 'a | Set_Result 'r | Set_Exception 'e

record ('a, 'e, 'r) run_outcome =
  raised :: "py_error option"
  item :: "('a, 'e, 'r) WorkItem"
  effects :: "('a, 'e, 'r) effect list"

text \<open>
  \<^verbatim>\<open>WorkItem.run\<close>. The call of \<^verbatim>\<open>set_running_or_notify_cancel\<close> stands outside the
  \<^verbatim>\<open>try\<close>, so what it raises leaves \<^verbatim>\<open>run\<close>; the bare \<^verbatim>\<open>except\<close> catches whatever
  the callable raises; \<^verbatim>\<open>set_exception\<close> in the handler and \<^verbatim>\<open>set_result\<close> in the
  \<^verbatim>\<open>else\<close> branch are not guarded.
\<close>

definition run :: "('a, 'e, 'r) WorkItem \<Rightarrow> ('a, 'e, 'r) run_outcome" where
  "run w =
     (case set_running_or_notify_cancel (future w) of
        Inl err \<Rightarrow> \<lparr>raised = Some err, item = w, effects = []\<rparr>
      | Inr (False, f) \<Rightarrow> \<lparr>raised = None, item = w\<lparr>future := f\<rparr>, effects = []\<rparr>
      | Inr (True, f) \<Rightarrow>
          (case fn w (args w) of
             Inl e \<Rightarrow>
               (case set_exception f e of
                  Inl err \<Rightarrow>
                    \<lparr>raised = Some err, item = w\<lparr>future := f\<rparr>, effects = [Invoked (args w)]\<rparr>
                | Inr f' \<Rightarrow>
                    \<lparr>raised = None, item = w\<lparr>future := f'\<rparr>,
                     effects = [Invoked (args w), Set_Exception e]\<rparr>)
           | Inr result \<Rightarrow>
               (case set_result f result of
                  Inl err \<Rightarrow>
                    \<lparr>raised = Some err, item = w\<lparr>future := f\<rparr>, effects = [Invoked (args w)]\<rparr>
                | Inr f' \<Rightarrow>
                    \<lparr>raised = None, item = w\<lparr>future := f'\<rparr>,
                     effects = [Invoked (args w), Set_Result result]\<rparr>)))"

subsection \<open>Threads and the state of the executor\<close>

text \<open>
  A \<^verbatim>\<open>threading.Thread\<close> whose target is \<^verbatim>\<open>thread_worker\<close>. \<open>ident\<close> is the identity
  of the thread object, which is what the set \<^verbatim>\<open>_threads\<close> compares. \<open>thread_args\<close> holds
  the third and the fourth positional argument of the target, in that order; the first two
  (the weak reference to the executor and its queue) are the shared state itself.
  \<open>started\<close> says that \<^verbatim>\<open>start()\<close> was called: from then on the thread runs its target.
\<close>

record thread =
  ident :: nat
  thread_args :: "rat \<times> rat"
  daemon :: bool
  started :: bool

text \<open>
  The attributes of a \<^verbatim>\<open>ScalingPoolExecutor\<close>. The queue holds work items and the
  sentinel \<^verbatim>\<open>None\<close>. \<open>alive\<close> says that the executor object still exists, that is, that a
  weak reference to it resolves; the queue outlives the executor, since every worker holds
  it. \<open>management_lock\<close> says that the lock is held.
\<close>

record ('a, 'e, 'r) executor =
  max_workers :: int
  divisor :: int
  timeout :: rat
  work_queue :: "('a, 'e, 'r) WorkItem option list"
  threads :: "thread list"
  shutdown_flag :: bool
  management_lock :: bool
  alive :: bool

text \<open>Calling a \<^verbatim>\<open>weakref.ref\<close> to the executor: \<open>None\<close> once the executor is gone.\<close>

definition executor_ref :: "('a, 'e, 'r) executor \<Rightarrow> ('a, 'e, 'r) executor option" where
  "executor_ref s = (if alive s then Some s else None)"

text \<open>
  The set \<^verbatim>\<open>_threads\<close> is a list without two threads of one identity:
  \<^verbatim>\<open>len\<close> is \<open>length\<close>, \<^verbatim>\<open>add\<close> and \<^verbatim>\<open>discard\<close> are the two functions below.
\<close>

definition idents :: "thread list \<Rightarrow> nat set" where
  "idents ts = set (map ident ts)"

definition threads_add :: "thread \<Rightarrow> thread list \<Rightarrow> thread list" where
  "threads_add t ts = (if ident t \<in> idents ts then ts else ts @ [t])"

definition threads_discard :: "nat \<Rightarrow> thread list \<Rightarrow> thread list" where
  "threads_discard me ts = filter (\<lambda>t. ident t \<noteq> me) ts"

text \<open>A new object differs from every thread of the set: its identity is above theirs.\<close>

definition fresh_ident :: "thread list \<Rightarrow> nat" where
  "fresh_ident ts = Suc (fold max (map ident ts) 0)"

subsection \<open>The queue\<close>

text \<open>
  Modelled from the spec: the shared queue is the standard library's and is not part of
  the source file. By the spec it is a blocking first-in first-out queue of work items and
  sentinels, and a wait on it is bounded: \<^verbatim>\<open>jobs.get(True, timeout)\<close> hands over the
  oldest entry if there is one, and ends with \<^verbatim>\<open>Empty\<close> when the queue is empty and the
  bound has passed. The library refuses a negative bound with \<^verbatim>\<open>ValueError\<close> before it
  looks at the queue.
\<close>

definition queue_get :: "'w list \<Rightarrow> rat \<Rightarrow> py_error + ('w \<times> 'w list)" where
  "queue_get q bound =
     (if bound < 0 then Inl ValueError
      else case q of [] \<Rightarrow> Inl Empty | x # xs \<Rightarrow> Inr (x, xs))"

subsection \<open>The worker loop\<close>

text \<open>
  Why a worker left its loop: the \<^verbatim>\<open>break\<close> on \<^verbatim>\<open>Empty\<close>, the \<^verbatim>\<open>break\<close> on a
  sentinel, the \<^verbatim>\<open>else\<close> branch of the \<^verbatim>\<open>while\<close>, or the outer bare \<^verbatim>\<open>except\<close>.
\<close>

datatype exit_reason = Starvation | Shut_Down | Exhaustion | Fatal py_error

text \<open>
  The log of a worker: the bound of every \<^verbatim>\<open>jobs.get\<close> it called, one per iteration of
  the loop, and the outcome of every \<^verbatim>\<open>work.run()\<close>.
\<close>

record ('a, 'e, 'r) worker_log =
  waits :: "rat list"
  ran :: "('a, 'e, 'r) run_outcome list"

definition empty_log :: "('a, 'e, 'r) worker_log" where
  "empty_log = \<lparr>waits = [], ran = []\<rparr>"

text \<open>
  The \<^verbatim>\<open>while i:\<close> loop of \<^verbatim>\<open>thread_worker\<close>. The test of the loop is the truth value of
  the number \<open>i\<close>, that is \<open>i \<noteq> 0\<close>. The inner \<^verbatim>\<open>try\<close> catches \<^verbatim>\<open>Empty\<close> only; any
  other exception of \<^verbatim>\<open>jobs.get\<close>, and any exception of \<^verbatim>\<open>work.run()\<close>, which stands
  in the \<^verbatim>\<open>else\<close> branch of the \<^verbatim>\<open>try\<close>, reaches the outer \<^verbatim>\<open>except\<close>.
\<close>

function worker_loop ::
  "rat \<Rightarrow> rat \<Rightarrow> ('a, 'e, 'r) executor \<Rightarrow> ('a, 'e, 'r) worker_log \<Rightarrow>
     exit_reason \<times> ('a, 'e, 'r) executor \<times> ('a, 'e, 'r) worker_log" where
  "worker_loop bound i s lg =
     (if i = 0 then (Exhaustion, s, lg)
      else
        (case queue_get (work_queue s) bound of
           Inl err \<Rightarrow>
             (if err = Empty then (Starvation, s, lg\<lparr>waits := waits lg @ [bound]\<rparr>)
              else (Fatal err, s, lg\<lparr>waits := waits lg @ [bound]\<rparr>))
         | Inr (work, q) \<Rightarrow>
             (case work of
                None \<Rightarrow>
                  (case executor_ref (s\<lparr>work_queue := q\<rparr>) of
                     None \<Rightarrow> (Shut_Down, s\<lparr>work_queue := q\<rparr>, lg\<lparr>waits := waits lg @ [bound]\<rparr>)
                   | Some runner \<Rightarrow>
                       (if shutdown_flag runner
                        then (Shut_Down, s\<lparr>work_queue := q\<rparr>, lg\<lparr>waits := waits lg @ [bound]\<rparr>)
                        else worker_loop bound (i - 1) (s\<lparr>work_queue := q\<rparr>)
                               (lg\<lparr>waits := waits lg @ [bound]\<rparr>)))
              | Some w \<Rightarrow>
                  (case raised (run w) of
                     Some err \<Rightarrow>
                       (Fatal err, s\<lparr>work_queue := q\<rparr>,
                        lg\<lparr>waits := waits lg @ [bound], ran := ran lg @ [run w]\<rparr>)
                   | None \<Rightarrow>
                       worker_loop bound (i - 1) (s\<lparr>work_queue := q\<rparr>)
                         (lg\<lparr>waits := waits lg @ [bound], ran := ran lg @ [run w]\<rparr>)))))"
  by pat_completeness auto
termination
  by (relation "measure (\<lambda>(bound, i, s, lg). length (work_queue s))")
     (auto simp: queue_get_def split: if_splits list.splits)

declare worker_loop.simps [simp del]

text \<open>What a worker thread leaves behind when \<^verbatim>\<open>thread_worker\<close> returns.\<close>

record ('a, 'e, 'r) worker_result =
  exit_by :: exit_reason
  final :: "('a, 'e, 'r) executor"
  wlog :: "('a, 'e, 'r) worker_log"

text \<open>
  \<^verbatim>\<open>thread_worker(executor, jobs, timeout, maximum)\<close>, run by the thread \<open>me\<close>
  (\<^verbatim>\<open>current_thread()\<close>). The weak reference \<^verbatim>\<open>executor\<close> and the queue \<^verbatim>\<open>jobs\<close> are
  the shared state \<open>s\<close>. After the loop, however it ended, the worker resolves the weak
  reference again and discards itself from \<^verbatim>\<open>_threads\<close>.
\<close>

definition thread_worker ::
  "nat \<Rightarrow> rat \<Rightarrow> rat \<Rightarrow> ('a, 'e, 'r) executor \<Rightarrow> ('a, 'e, 'r) worker_result" where
  "thread_worker me bound maximum s =
     (case worker_loop bound (maximum + 1) s empty_log of
        (reason, s', lg) \<Rightarrow>
          \<lparr>exit_by = reason,
           final =
             (case executor_ref s' of
                None \<Rightarrow> s'
              | Some runner \<Rightarrow> runner\<lparr>threads := threads_discard me (threads runner)\<rparr>),
           wlog = lg\<rparr>)"

text \<open>\<^verbatim>\<open>Thread.run\<close>: the target is called with the positional arguments, in their order.\<close>

definition thread_run :: "thread \<Rightarrow> ('a, 'e, 'r) executor \<Rightarrow> ('a, 'e, 'r) worker_result" where
  "thread_run t s = (case thread_args t of (a3, a4) \<Rightarrow> thread_worker (ident t) a3 a4 s)"

subsection \<open>The scaling executor\<close>

text \<open>
  \<^verbatim>\<open>ScalingPoolExecutor.__init__(workers, divisor, timeout)\<close>. The constructor of the
  base class, \<^verbatim>\<open>ThreadPoolExecutor\<close> of the standard library, refuses a worker count that
  is not positive and creates the empty queue and the empty set of threads. The hook
  registered with \<^verbatim>\<open>atexit\<close> only runs when the process ends and is left out.
\<close>

definition ScalingPoolExecutor_init ::
  "int \<Rightarrow> int \<Rightarrow> rat \<Rightarrow> py_error + ('a, 'e, 'r) executor" where
  "ScalingPoolExecutor_init workers d t =
     (if workers \<le> 0 then Inl ValueError
      else Inr \<lparr>max_workers = workers, divisor = d, timeout = t, work_queue = [],
                threads = [], shutdown_flag = False, management_lock = False, alive = True\<rparr>)"

text \<open>
  The property \<^verbatim>\<open>_optimum_workers\<close>. \<^verbatim>\<open>float(self.divisor)\<close> raises when the divisor
  is too large for a float, and the division by it raises when the divisor is zero.
  \<^verbatim>\<open>qsize()\<close> counts every entry of the queue, sentinels too.
\<close>

definition optimum_workers :: "('a, 'e, 'r) executor \<Rightarrow> py_error + int" where
  "optimum_workers s =
     (case py_float (of_int (divisor s)) of
        Inl err \<Rightarrow> Inl err
      | Inr d \<Rightarrow>
          if d = 0 then Inl ZeroDivisionError
          else Inr (min (max_workers s) \<lceil>(of_nat (length (work_queue s)) :: rat) / d\<rceil>))"

text \<open>
  \<^verbatim>\<open>_spawn\<close>, statement by statement. The thread object is created with the arguments
  \<^verbatim>\<open>(weakref.ref(self), self._work_queue, self.divisor, self.timeout)\<close>, made a daemon and
  started (\<open>spawn_start\<close> lists the local variable \<^verbatim>\<open>t\<close> after each of the three
  statements); then the management lock is taken, the thread is added to \<^verbatim>\<open>_threads\<close>,
  and the lock is released (\<open>spawn_register\<close> lists the state of the executor after each
  of the three steps). \<open>spawn_trace\<close> is the run of \<^verbatim>\<open>_spawn\<close> with nothing else running
  in between: the state of the executor and of \<^verbatim>\<open>t\<close> after each of the six steps.
  \<open>spawn\<close> is the state at the end.
\<close>

definition Thread_new :: "('a, 'e, 'r) executor \<Rightarrow> thread" where
  "Thread_new s =
     \<lparr>ident = fresh_ident (threads s), thread_args = (of_int (divisor s), timeout s),
      daemon = False, started = False\<rparr>"

definition spawn_start :: "('a, 'e, 'r) executor \<Rightarrow> thread list" where
  "spawn_start s =
     (let t0 = Thread_new s;
          t1 = t0\<lparr>daemon := True\<rparr>;
          t2 = t1\<lparr>started := True\<rparr>
      in [t0, t1, t2])"

definition spawn_register :: "thread \<Rightarrow> ('a, 'e, 'r) executor \<Rightarrow> ('a, 'e, 'r) executor list" where
  "spawn_register t s =
     (let s3 = s\<lparr>management_lock := True\<rparr>;
          s4 = s3\<lparr>threads := threads_add t (threads s3)\<rparr>;
          s5 = s4\<lparr>management_lock := False\<rparr>
      in [s3, s4, s5])"

definition spawn_trace :: "('a, 'e, 'r) executor \<Rightarrow> (('a, 'e, 'r) executor \<times> thread) list" where
  "spawn_trace s =
     map (\<lambda>t. (s, t)) (spawn_start s) @
     map (\<lambda>s'. (s', last (spawn_start s))) (spawn_register (last (spawn_start s)) s)"

definition spawn :: "('a, 'e, 'r) executor \<Rightarrow> ('a, 'e, 'r) executor" where
  "spawn s = fst (last (spawn_trace s))"

text \<open>\<^verbatim>\<open>for i in range(tospawn): self._spawn()\<close>; an empty range when \<open>tospawn \<le> 0\<close>.\<close>

primrec spawn_times :: "nat \<Rightarrow> ('a, 'e, 'r) executor \<Rightarrow> ('a, 'e, 'r) executor" where
  "spawn_times 0 s = s"
| "spawn_times (Suc n) s = spawn_times n (spawn s)"

text \<open>
  \<^verbatim>\<open>_adjust_thread_count\<close>. The property \<^verbatim>\<open>_optimum_workers\<close> is read twice, in the test
  and in \<^verbatim>\<open>tospawn\<close>. Nothing was changed yet when it raises, so a raise needs no state.
\<close>

definition adjust_thread_count :: "('a, 'e, 'r) executor \<Rightarrow> py_error + ('a, 'e, 'r) executor" where
  "adjust_thread_count s =
     (let pool = int (length (threads s)) in
      case optimum_workers s of
        Inl err \<Rightarrow> Inl err
      | Inr optimum \<Rightarrow>
          if pool < optimum then
            (case optimum_workers s of
               Inl err \<Rightarrow> Inl err
             | Inr optimum' \<Rightarrow> Inr (spawn_times (nat (optimum' - pool)) s))
          else Inr s)"

text \<open>
  \<^verbatim>\<open>shutdown(wait)\<close>: the flag, one \<^verbatim>\<open>put(None)\<close> for each element of \<^verbatim>\<open>_threads\<close>,
  and with \<^verbatim>\<open>wait\<close> a \<^verbatim>\<open>join()\<close> of each thread of \<^verbatim>\<open>list(self._threads)\<close>. The result
  is the state and the identities of the threads that were joined, in order. The lock
  \<^verbatim>\<open>_shutdown_lock\<close> is taken and released within the call and is left out. Every thread
  of the set was started before it was added, so no \<^verbatim>\<open>join()\<close> raises.
\<close>

definition shutdown :: "('a, 'e, 'r) executor \<Rightarrow> bool \<Rightarrow> ('a, 'e, 'r) executor \<times> nat list" where
  "shutdown s wait =
     (let s1 = s\<lparr>shutdown_flag := True\<rparr>;
          s2 = s1\<lparr>work_queue := work_queue s1 @ replicate (length (threads s1)) None\<rparr>
      in (s2, if wait then map ident (threads s2) else []))"

text \<open>
  Modelled from the spec: \<^verbatim>\<open>submit\<close> is inherited from \<^verbatim>\<open>ThreadPoolExecutor\<close> and is
  not in the source file. By the spec it fails by raising once shutdown has been initiated;
  otherwise it constructs a work item with a fresh result handle, enqueues it, invokes the
  scaling adjustment, and returns the handle. The state is returned with the outcome, since
  the item has been enqueued when the adjustment raises.
\<close>

definition submit ::
  "('a, 'e, 'r) executor \<Rightarrow> ('a \<Rightarrow> 'e + 'r) \<Rightarrow> 'a \<Rightarrow>
     (py_error + ('e, 'r) future) \<times> ('a, 'e, 'r) executor" where
  "submit s f a =
     (if shutdown_flag s then (Inl RuntimeError, s)
      else
        (let w = \<lparr>future = PENDING, fn = f, args = a\<rparr>;
             s1 = s\<lparr>work_queue := work_queue s @ [Some w]\<rparr>
         in case adjust_thread_count s1 of
              Inl err \<Rightarrow> (Inl err, s1)
            | Inr s2 \<Rightarrow> (Inr (future w), s2)))"

text \<open>A run of submissions, each on the state the one before left; a raise ends the run.\<close>

fun submit_all ::
  "('a, 'e, 'r) executor \<Rightarrow> (('a \<Rightarrow> 'e + 'r) \<times> 'a) list \<Rightarrow> py_error + ('a, 'e, 'r) executor" where
  "submit_all s [] = Inr s"
| "submit_all s ((f, a) # rest) =
     (case submit s f a of
        (Inl err, _) \<Rightarrow> Inl err
      | (Inr _, s') \<Rightarrow> submit_all s' rest)"

subsection \<open>The manager\<close>

text \<open>
  \<^verbatim>\<open>DynamicManager.__init__\<close> reads three numbers from the configuration, with defaults,
  and converts them with \<^verbatim>\<open>int\<close> (which truncates towards zero) and \<^verbatim>\<open>float\<close> (which
  raises on an integer that is too large); it checks none of them. The transport pool is
  outside this development. \<^verbatim>\<open>startup\<close> constructs the executor from the three
  attributes.
\<close>

record ('a, 'e, 'r) DynamicManager =
  m_workers :: int
  m_divisor :: int
  m_timeout :: rat
  m_executor :: "('a, 'e, 'r) executor option"

definition py_int :: "rat \<Rightarrow> int" where
  "py_int x = (if x < 0 then \<lceil>x\<rceil> else \<lfloor>x\<rfloor>)"

definition config_get :: "(string \<rightharpoonup> rat) \<Rightarrow> string \<Rightarrow> rat \<Rightarrow> rat" where
  "config_get config key dflt = (case config key of None \<Rightarrow> dflt | Some v \<Rightarrow> v)"

definition DynamicManager_init ::
  "(string \<rightharpoonup> rat) \<Rightarrow> py_error + ('a, 'e, 'r) DynamicManager" where
  "DynamicManager_init config =
     (case py_float (config_get config ''timeout'' 60) of
        Inl err \<Rightarrow> Inl err
      | Inr t \<Rightarrow>
          Inr \<lparr>m_workers = py_int (config_get config ''workers'' 10),
               m_divisor = py_int (config_get config ''divisor'' 10),
               m_timeout = t,
               m_executor = None\<rparr>)"

definition startup :: "('a, 'e, 'r) DynamicManager \<Rightarrow> py_error + ('a, 'e, 'r) DynamicManager" where
  "startup m =
     (case ScalingPoolExecutor_init (m_workers m) (m_divisor m) (m_timeout m) of
        Inl err \<Rightarrow> Inl err
      | Inr ex \<Rightarrow> Inr (m\<lparr>m_executor := Some ex\<rparr>))"

subsection \<open>The scaling policy in the words of the specification\<close>

text \<open>
  The optimum of the specification, \<open>min(max_workers, ceil(queue_depth / divisor))\<close>,
  as a function of the three numbers. It is compared below with \<open>optimum_workers\<close>.
\<close>

definition spec_optimum :: "int \<Rightarrow> nat \<Rightarrow> int \<Rightarrow> int" where
  "spec_optimum max_w queue_depth d = min max_w \<lceil>(of_nat queue_depth :: rat) / of_int d\<rceil>"

text \<open>A queue entry that a worker can run: a work item whose future is pending.\<close>

definition runnable :: "('a, 'e, 'r) WorkItem option \<Rightarrow> bool" where
  "runnable w = (case w of None \<Rightarrow> False | Some x \<Rightarrow> future x = PENDING)"

subsection \<open>Example inputs\<close>

text \<open>
  A callable that returns the successor of its argument and one that raises; an executor
  with no threads, given by its three parameters and the content of its queue; a started
  worker thread; and an executor whose workers have a budget of one iteration, with the
  thread that \<^verbatim>\<open>_spawn\<close> starts for it.
\<close>

definition job :: "(nat, string, nat) WorkItem" where
  "job = \<lparr>future = PENDING, fn = (\<lambda>n. Inr (Suc n)), args = 41\<rparr>"

definition failing_job :: "(nat, string, nat) WorkItem" where
  "failing_job = \<lparr>future = PENDING, fn = (\<lambda>n. Inl ''x''), args = 0\<rparr>"

definition pool ::
  "int \<Rightarrow> int \<Rightarrow> rat \<Rightarrow> (nat, string, nat) WorkItem option list \<Rightarrow> (nat, string, nat) executor" where
  "pool w d t q =
     \<lparr>max_workers = w, divisor = d, timeout = t, work_queue = q, threads = [],
      shutdown_flag = False, management_lock = False, alive = True\<rparr>"

definition worker_thread :: "nat \<Rightarrow> thread" where
  "worker_thread k = \<lparr>ident = k, thread_args = (5, 60), daemon = True, started = True\<rparr>"

definition early_pool :: "(nat, string, nat) executor" where
  "early_pool = pool 1 1 0 [Some job]"

definition early_worker :: thread where
  "early_worker = last (spawn_start early_pool)"

section \<open>The work item\<close>

lemma run_pending:
  "future w = PENDING \<Longrightarrow>
     run w = (case fn w (args w) of
                Inl e \<Rightarrow> \<lparr>raised = None, item = w\<lparr>future := FINISHED_exception e\<rparr>,
                           effects = [Invoked (args w), Set_Exception e]\<rparr>
              | Inr r \<Rightarrow> \<lparr>raised = None, item = w\<lparr>future := FINISHED_result r\<rparr>,
                           effects = [Invoked (args w), Set_Result r]\<rparr>)"
  by (simp add: run_def set_running_or_notify_cancel_def set_result_def set_exception_def
      split: sum.splits)

lemma run_runnable: "future x = PENDING \<Longrightarrow> raised (run x) = None"
  by (simp add: run_pending split: sum.splits)

text \<open>
  Claim C3. A work item whose future is pending (submitted and not cancelled) is run as
  follows: \<^verbatim>\<open>run\<close> raises nothing, the callable is invoked once with the arguments of the
  item, and the future is resolved once: with the returned value when the callable returns,
  with the raised exception, and no result, when it raises.
\<close>

theorem run_resolves_once:
  "future w = PENDING \<Longrightarrow>
     raised (run w) = None \<and>
     fn (item (run w)) = fn w \<and> args (item (run w)) = args w \<and>
     (case fn w (args w) of
        Inr r \<Rightarrow> future (item (run w)) = FINISHED_result r \<and>
                 effects (run w) = [Invoked (args w), Set_Result r]
      | Inl e \<Rightarrow> future (item (run w)) = FINISHED_exception e \<and>
                 effects (run w) = [Invoked (args w), Set_Exception e])"
  by (simp add: run_pending split: sum.splits)

theorem run_resolves_once_witness:
  "future job = PENDING \<and> raised (run job) = None \<and>
   future (item (run job)) = FINISHED_result 42 \<and>
   effects (run job) = [Invoked 41, Set_Result 42] \<and>
   future failing_job = PENDING \<and> raised (run failing_job) = None \<and>
   future (item (run failing_job)) = FINISHED_exception ''x'' \<and>
   effects (run failing_job) = [Invoked 0, Set_Exception ''x'']"
  using run_resolves_once [of job] run_resolves_once [of failing_job]
  by (simp add: job_def failing_job_def)

text \<open>
  Claim C4. A work item whose future was cancelled before the item is run: marking it
  running fails, \<^verbatim>\<open>run\<close> returns at once without raising, the callable is not invoked and
  the future is not resolved. The future stays cancelled; the only change is the one made
  by the failed marking itself, which records that the cancellation was notified.
\<close>

theorem run_skips_cancelled:
  "future w = CANCELLED \<Longrightarrow>
     run w = \<lparr>raised = None, item = w\<lparr>future := CANCELLED_AND_NOTIFIED\<rparr>, effects = []\<rparr>"
  by (simp add: run_def set_running_or_notify_cancel_def)

theorem run_skips_cancelled_witness:
  "future (job\<lparr>future := CANCELLED\<rparr>) = CANCELLED \<and>
   raised (run (job\<lparr>future := CANCELLED\<rparr>)) = None \<and>
   effects (run (job\<lparr>future := CANCELLED\<rparr>)) = [] \<and>
   cancelled (future (item (run (job\<lparr>future := CANCELLED\<rparr>))))"
  using run_skips_cancelled [of "job\<lparr>future := CANCELLED\<rparr>"]
  by (simp add: cancelled_def)

section \<open>The worker loop\<close>

subsection \<open>One iteration\<close>

lemma queue_get_EmptyD: "queue_get q b = Inl Empty \<Longrightarrow> q = [] \<and> 0 \<le> b"
  by (auto simp: queue_get_def split: if_splits list.splits)

lemma queue_get_InrD: "queue_get q b = Inr (x, q') \<Longrightarrow> q = x # q' \<and> 0 \<le> b"
  by (auto simp: queue_get_def split: if_splits list.splits)

text \<open>
  The seven ways through one iteration of the loop: the test fails, the wait expires, the
  wait raises, a sentinel ends the loop, a sentinel is passed over, the work item raises,
  the work item has run.
\<close>

lemma worker_loop_cases [consumes 1, case_names exhausted starved fatal_get sentinel_exit
    sentinel_continue fatal_run ran]:
  assumes "worker_loop bound i s lg = res"
  obtains
    "i = 0" "res = (Exhaustion, s, lg)"
  | "i \<noteq> 0" "queue_get (work_queue s) bound = Inl Empty"
      "res = (Starvation, s, lg\<lparr>waits := waits lg @ [bound]\<rparr>)"
  | err where "i \<noteq> 0" "queue_get (work_queue s) bound = Inl err" "err \<noteq> Empty"
      "res = (Fatal err, s, lg\<lparr>waits := waits lg @ [bound]\<rparr>)"
  | q where "i \<noteq> 0" "queue_get (work_queue s) bound = Inr (None, q)"
      "\<not> alive s \<or> shutdown_flag s"
      "res = (Shut_Down, s\<lparr>work_queue := q\<rparr>, lg\<lparr>waits := waits lg @ [bound]\<rparr>)"
  | q where "i \<noteq> 0" "queue_get (work_queue s) bound = Inr (None, q)"
      "alive s" "\<not> shutdown_flag s"
      "res = worker_loop bound (i - 1) (s\<lparr>work_queue := q\<rparr>) (lg\<lparr>waits := waits lg @ [bound]\<rparr>)"
  | w q err where "i \<noteq> 0" "queue_get (work_queue s) bound = Inr (Some w, q)"
      "raised (run w) = Some err"
      "res = (Fatal err, s\<lparr>work_queue := q\<rparr>,
              lg\<lparr>waits := waits lg @ [bound], ran := ran lg @ [run w]\<rparr>)"
  | w q where "i \<noteq> 0" "queue_get (work_queue s) bound = Inr (Some w, q)"
      "raised (run w) = None"
      "res = worker_loop bound (i - 1) (s\<lparr>work_queue := q\<rparr>)
               (lg\<lparr>waits := waits lg @ [bound], ran := ran lg @ [run w]\<rparr>)"
proof -
  note unfolded = assms [unfolded worker_loop.simps [of bound i s lg]]
  show thesis
  proof (cases "i = 0")
    case True
    with unfolded that(1) show thesis by simp
  next
    case nz: False
    show thesis
    proof (cases "queue_get (work_queue s) bound")
      case (Inl err)
      with unfolded nz that(2,3) show thesis by (cases "err = Empty") simp_all
    next
      case (Inr p)
      obtain work q where p: "p = (work, q)" by (cases p)
      show thesis
      proof (cases work)
        case None
        with unfolded nz Inr p that(4) [of q] that(5) [of q] show thesis
          by (cases "alive s"; cases "shutdown_flag s") (simp_all add: executor_ref_def)
      next
        case (Some w)
        with unfolded nz Inr p that(6) [of w q] that(7) [of w q] show thesis
          by (cases "raised (run w)") simp_all
      qed
    qed
  qed
qed

lemma worker_loop_step_exhausted: "worker_loop bound 0 s lg = (Exhaustion, s, lg)"
  by (simp add: worker_loop.simps)

lemma worker_loop_step_starved:
  "i \<noteq> 0 \<Longrightarrow> 0 \<le> bound \<Longrightarrow> work_queue s = [] \<Longrightarrow>
     worker_loop bound i s lg = (Starvation, s, lg\<lparr>waits := waits lg @ [bound]\<rparr>)"
  by (subst worker_loop.simps) (simp add: queue_get_def)

lemma worker_loop_step_sentinel:
  "i \<noteq> 0 \<Longrightarrow> 0 \<le> bound \<Longrightarrow> work_queue s = None # q \<Longrightarrow> \<not> alive s \<or> shutdown_flag s \<Longrightarrow>
     worker_loop bound i s lg =
       (Shut_Down, s\<lparr>work_queue := q\<rparr>, lg\<lparr>waits := waits lg @ [bound]\<rparr>)"
  by (subst worker_loop.simps) (auto simp: queue_get_def executor_ref_def)

subsection \<open>Invariants of the loop\<close>

text \<open>The loop waits with its bound only, and changes nothing of the executor but the queue.\<close>

lemma worker_loop_waits:
  "worker_loop bound i s lg = (r, s', lg') \<Longrightarrow>
     set (waits lg') \<subseteq> insert bound (set (waits lg))"
proof (induction bound i s lg arbitrary: r s' lg' rule: worker_loop.induct)
  case (1 bound i s lg)
  from "1.prems" "1.IH" show ?case
    by (subst (asm) worker_loop.simps)
       (fastforce split: if_splits sum.splits option.splits prod.splits)
qed

lemma worker_loop_frame:
  "worker_loop bound i s lg = (r, s', lg') \<Longrightarrow>
     s' = s\<lparr>work_queue := work_queue s'\<rparr>"
proof (induction bound i s lg arbitrary: r s' lg' rule: worker_loop.induct)
  case (1 bound i s lg)
  from "1.prems" "1.IH" show ?case
    apply (subst (asm) worker_loop.simps)
    apply (auto split: if_splits sum.splits option.splits prod.splits)
    done
qed

text \<open>
  With a counter that is a natural number \<open>n\<close> the loop runs at most \<open>n\<close> times, and
  exactly \<open>n\<close> times when it ends by exhaustion.
\<close>

lemma worker_loop_budget:
  "worker_loop bound (of_nat n) s lg = (r, s', lg') \<Longrightarrow>
     length (waits lg') \<le> length (waits lg) + n \<and>
     (r = Exhaustion \<longrightarrow> length (waits lg') = length (waits lg) + n)"
proof (induction n arbitrary: s lg)
  case 0
  then show ?case by (simp add: worker_loop.simps)
next
  case (Suc n)
  have pred: "(of_nat (Suc n) :: rat) - 1 = of_nat n" by simp
  have nz: "(of_nat (Suc n) :: rat) \<noteq> 0" by (simp only: of_nat_neq_0 not_False_eq_True)
  from Suc.prems show ?case
    apply (subst (asm) worker_loop.simps)
    apply (simp only: pred nz if_False)
    apply (auto split: if_splits sum.splits option.splits prod.splits dest!: Suc.IH)
    done
qed

text \<open>
  The loop waits at least once unless its counter is zero from the start, and every wait
  has the bound of the loop.
\<close>

lemma worker_loop_waits_count:
  "worker_loop bound i s lg = (r, s', lg') \<Longrightarrow>
     \<exists>k. waits lg' = waits lg @ replicate k bound \<and> (i \<noteq> 0 \<longrightarrow> 0 < k)"
proof (induction "length (work_queue s)" arbitrary: i s lg rule: less_induct)
  case less
  have one: "\<And>xs k. (xs @ [bound]) @ replicate k bound = xs @ replicate (Suc k) bound"
    by simp
  from less.prems show ?case
  proof (cases rule: worker_loop_cases)
    case exhausted
    then show ?thesis by (intro exI [of _ 0]) simp
  next
    case starved
    then show ?thesis by (intro exI [of _ 1]) auto
  next
    case (fatal_get err)
    then show ?thesis by (intro exI [of _ 1]) auto
  next
    case (sentinel_exit q)
    then show ?thesis by (intro exI [of _ 1]) auto
  next
    case (sentinel_continue q)
    then have "length (work_queue (s\<lparr>work_queue := q\<rparr>)) < length (work_queue s)"
      by (auto dest: queue_get_InrD)
    from less.hyps [OF this sentinel_continue(5) [symmetric]] obtain k where
      "waits lg' = waits (lg\<lparr>waits := waits lg @ [bound]\<rparr>) @ replicate k bound"
      by blast
    then have "waits lg' = waits lg @ replicate (Suc k) bound" by simp
    then show ?thesis by (intro exI [of _ "Suc k"]) simp
  next
    case (fatal_run w q err)
    then show ?thesis by (intro exI [of _ 1]) auto
  next
    case (ran w q)
    then have "length (work_queue (s\<lparr>work_queue := q\<rparr>)) < length (work_queue s)"
      by (auto dest: queue_get_InrD)
    from less.hyps [OF this ran(4) [symmetric]] obtain k where
      "waits lg' =
         waits (lg\<lparr>waits := waits lg @ [bound], ran := ran lg @ [run w]\<rparr>) @ replicate k bound"
      by blast
    then have "waits lg' = waits lg @ replicate (Suc k) bound" by simp
    then show ?thesis by (intro exI [of _ "Suc k"]) simp
  qed
qed

text \<open>
  On a queue of runnable items and with a counter that is a natural number \<open>n\<close> the number
  of waits is known: one for each item and one more that expires, or \<open>n\<close> if that is less.
\<close>

lemma worker_loop_runnable_waits:
  "0 \<le> bound \<Longrightarrow> list_all runnable (work_queue s) \<Longrightarrow>
     waits (snd (snd (worker_loop bound (of_nat n) s lg))) =
       waits lg @ replicate (min n (length (work_queue s) + 1)) bound"
proof (induction n arbitrary: s lg)
  case 0
  then show ?case by (simp add: worker_loop.simps)
next
  case (Suc n)
  have pred: "(of_nat (Suc n) :: rat) - 1 = of_nat n" by simp
  have nz: "(of_nat (Suc n) :: rat) \<noteq> 0" by (simp only: of_nat_neq_0 not_False_eq_True)
  show ?case
  proof (cases "work_queue s")
    case Nil
    with Suc.prems(1) nz show ?thesis
      by (simp add: worker_loop_step_starved del: of_nat_Suc)
  next
    case (Cons w q)
    with Suc.prems(2) obtain x where x: "w = Some x" "future x = PENDING"
      by (cases w) (auto simp: runnable_def)
    from Suc.prems(2) Cons have rest: "list_all runnable (work_queue (s\<lparr>work_queue := q\<rparr>))"
      by simp
    have step: "worker_loop bound (of_nat (Suc n)) s lg =
        worker_loop bound (of_nat n) (s\<lparr>work_queue := q\<rparr>)
          (lg\<lparr>waits := waits lg @ [bound], ran := ran lg @ [run x]\<rparr>)"
      using Suc.prems(1) Cons x(1) run_runnable [OF x(2)]
      by (subst worker_loop.simps) (simp only: pred nz if_False, simp add: queue_get_def)
    show ?thesis
      unfolding step Suc.IH [OF Suc.prems(1) rest]
      by (simp add: Cons)
  qed
qed

lemma worker_loop_starved:
  "worker_loop bound i s lg = (Starvation, s', lg') \<Longrightarrow> work_queue s' = [] \<and> 0 \<le> bound"
proof (induction "length (work_queue s)" arbitrary: i s lg rule: less_induct)
  case less
  from less.prems show ?case
  proof (cases rule: worker_loop_cases)
    case starved
    then show ?thesis by (auto dest: queue_get_EmptyD)
  next
    case (sentinel_continue q)
    then have "length (work_queue (s\<lparr>work_queue := q\<rparr>)) < length (work_queue s)"
      by (auto dest: queue_get_InrD)
    from less.hyps [OF this sentinel_continue(5) [symmetric]] show ?thesis .
  next
    case (ran w q)
    then have "length (work_queue (s\<lparr>work_queue := q\<rparr>)) < length (work_queue s)"
      by (auto dest: queue_get_InrD)
    from less.hyps [OF this ran(4) [symmetric]] show ?thesis .
  qed simp_all
qed

lemma worker_loop_shut_down:
  "worker_loop bound i s lg = (Shut_Down, s', lg') \<Longrightarrow> \<not> alive s \<or> shutdown_flag s"
proof (induction "length (work_queue s)" arbitrary: i s lg rule: less_induct)
  case less
  from less.prems show ?case
  proof (cases rule: worker_loop_cases)
    case (sentinel_exit q)
    then show ?thesis by simp
  next
    case (sentinel_continue q)
    then have "length (work_queue (s\<lparr>work_queue := q\<rparr>)) < length (work_queue s)"
      by (auto dest: queue_get_InrD)
    from less.hyps [OF this sentinel_continue(5) [symmetric]] sentinel_continue show ?thesis
      by simp
  next
    case (ran w q)
    then have "length (work_queue (s\<lparr>work_queue := q\<rparr>)) < length (work_queue s)"
      by (auto dest: queue_get_InrD)
    from less.hyps [OF this ran(4) [symmetric]] show ?thesis by simp
  qed simp_all
qed

lemma worker_loop_exhausts:
  "0 \<le> bound \<Longrightarrow> n \<le> length (work_queue s) \<Longrightarrow>
   list_all runnable (take n (work_queue s)) \<Longrightarrow>
     fst (worker_loop bound (of_nat n) s lg) = Exhaustion"
proof (induction n arbitrary: s lg)
  case 0
  then show ?case by (simp add: worker_loop.simps)
next
  case (Suc n)
  have pred: "(of_nat (Suc n) :: rat) - 1 = of_nat n" by simp
  have nz: "(of_nat (Suc n) :: rat) \<noteq> 0" by (simp only: of_nat_neq_0 not_False_eq_True)
  from Suc.prems obtain x q where q: "work_queue s = Some x # q" and x: "future x = PENDING"
    by (cases "work_queue s") (auto simp: runnable_def split: option.splits)
  from Suc.prems q have rest: "n \<le> length (work_queue (s\<lparr>work_queue := q\<rparr>))"
    "list_all runnable (take n (work_queue (s\<lparr>work_queue := q\<rparr>)))"
    by simp_all
  have step: "worker_loop bound (of_nat (Suc n)) s lg =
      worker_loop bound (of_nat n) (s\<lparr>work_queue := q\<rparr>)
        (lg\<lparr>waits := waits lg @ [bound], ran := ran lg @ [run x]\<rparr>)"
    using Suc.prems(1) q run_runnable [OF x]
    by (subst worker_loop.simps) (simp only: pred nz if_False, simp add: queue_get_def)
  show ?case
    unfolding step by (rule Suc.IH [OF Suc.prems(1) rest])
qed

subsection \<open>The worker as a whole\<close>

lemma thread_worker_exit:
  "exit_by (thread_worker me bound maximum s) = fst (worker_loop bound (maximum + 1) s empty_log)"
  by (simp add: thread_worker_def split: prod.splits)

lemma thread_worker_waits: "set (waits (wlog (thread_worker me bound maximum s))) \<subseteq> {bound}"
proof -
  obtain r s' lg where loop: "worker_loop bound (maximum + 1) s empty_log = (r, s', lg)"
    by (cases "worker_loop bound (maximum + 1) s empty_log") auto
  from worker_loop_waits [OF loop] have "set (waits lg) \<subseteq> {bound}"
    by (simp add: empty_log_def)
  then show ?thesis
    by (simp add: thread_worker_def loop)
qed

lemma thread_worker_budget:
  "length (waits (wlog (thread_worker me bound (of_nat n) s))) \<le> n + 1 \<and>
   (exit_by (thread_worker me bound (of_nat n) s) = Exhaustion \<longrightarrow>
      length (waits (wlog (thread_worker me bound (of_nat n) s))) = n + 1)"
proof -
  have cnt: "(of_nat n :: rat) + 1 = of_nat (Suc n)" by simp
  obtain r s' lg where loop: "worker_loop bound (of_nat (Suc n)) s empty_log = (r, s', lg)"
    by (cases "worker_loop bound (of_nat (Suc n)) s empty_log") auto
  from worker_loop_budget [OF loop]
  have "length (waits lg) \<le> n + 1 \<and> (r = Exhaustion \<longrightarrow> length (waits lg) = n + 1)"
    by (simp add: empty_log_def)
  then show ?thesis
    by (simp add: thread_worker_def cnt loop del: of_nat_Suc)
qed

lemma thread_worker_first_wait:
  "maximum + 1 \<noteq> 0 \<Longrightarrow> set (waits (wlog (thread_worker me bound maximum s))) = {bound}"
proof -
  assume nz: "maximum + 1 \<noteq> 0"
  obtain r s' lg where loop: "worker_loop bound (maximum + 1) s empty_log = (r, s', lg)"
    by (cases "worker_loop bound (maximum + 1) s empty_log") auto
  from worker_loop_waits_count [OF loop] nz obtain k where
    "waits lg = replicate k bound" "0 < k"
    by (auto simp: empty_log_def)
  then have "set (waits lg) = {bound}" by auto
  then show ?thesis
    by (simp add: thread_worker_def loop)
qed

lemma thread_worker_runnable_waits:
  "0 \<le> bound \<Longrightarrow> list_all runnable (work_queue s) \<Longrightarrow>
     waits (wlog (thread_worker me bound (of_nat n) s)) =
       replicate (min (n + 1) (length (work_queue s) + 1)) bound"
proof -
  assume a: "0 \<le> bound" "list_all runnable (work_queue s)"
  have cnt: "(of_nat n :: rat) + 1 = of_nat (n + 1)" by simp
  have "wlog (thread_worker me bound (of_nat n) s) =
      snd (snd (worker_loop bound (of_nat (n + 1)) s empty_log))"
    unfolding thread_worker_def cnt by (simp split: prod.splits)
  then show ?thesis
    using worker_loop_runnable_waits [OF a, of "n + 1" empty_log]
    by (simp add: empty_log_def)
qed

lemma thread_worker_starved:
  "exit_by (thread_worker me bound maximum s) = Starvation \<Longrightarrow>
     work_queue (final (thread_worker me bound maximum s)) = [] \<and> 0 \<le> bound"
proof -
  assume a: "exit_by (thread_worker me bound maximum s) = Starvation"
  obtain r s' lg where loop: "worker_loop bound (maximum + 1) s empty_log = (r, s', lg)"
    by (cases "worker_loop bound (maximum + 1) s empty_log") auto
  with a have "r = Starvation" by (simp add: thread_worker_def)
  with loop worker_loop_starved [of bound "maximum + 1" s empty_log s' lg]
  have "work_queue s' = [] \<and> 0 \<le> bound" by simp
  then show ?thesis
    by (simp add: thread_worker_def loop executor_ref_def)
qed

lemma thread_worker_shut_down:
  "exit_by (thread_worker me bound maximum s) = Shut_Down \<Longrightarrow> \<not> alive s \<or> shutdown_flag s"
proof -
  assume a: "exit_by (thread_worker me bound maximum s) = Shut_Down"
  obtain r s' lg where loop: "worker_loop bound (maximum + 1) s empty_log = (r, s', lg)"
    by (cases "worker_loop bound (maximum + 1) s empty_log") auto
  with a have "r = Shut_Down" by (simp add: thread_worker_def)
  with loop worker_loop_shut_down [of bound "maximum + 1" s empty_log s' lg]
  show ?thesis by simp
qed

lemma thread_worker_exhausts:
  "0 \<le> bound \<Longrightarrow> n + 1 \<le> length (work_queue s) \<Longrightarrow>
   list_all runnable (take (n + 1) (work_queue s)) \<Longrightarrow>
     exit_by (thread_worker me bound (of_nat n) s) = Exhaustion"
proof -
  assume a: "0 \<le> bound" "n + 1 \<le> length (work_queue s)"
    "list_all runnable (take (n + 1) (work_queue s))"
  have cnt: "(of_nat n :: rat) + 1 = of_nat (n + 1)" by simp
  from worker_loop_exhausts [OF a, of empty_log] show ?thesis
    unfolding thread_worker_exit cnt .
qed

lemma thread_worker_threads:
  "threads (final (thread_worker me bound maximum s)) =
     (if alive s then threads_discard me (threads s) else threads s)"
proof -
  obtain r s' lg where loop: "worker_loop bound (maximum + 1) s empty_log = (r, s', lg)"
    by (cases "worker_loop bound (maximum + 1) s empty_log") auto
  from worker_loop_frame [OF loop] obtain q where "s' = s\<lparr>work_queue := q\<rparr>" by blast
  then show ?thesis
    by (simp add: thread_worker_def loop executor_ref_def)
qed

lemma threads_discard_absent: "me \<notin> idents (threads_discard me ts)"
  by (auto simp: idents_def threads_discard_def)

text \<open>
  Claim C8, as stated: every worker loop ends after at most \<open>maximum + 1\<close> iterations.
  This fails when \<open>maximum\<close> is not an integer (or is below \<open>-1\<close>): the counter then
  steps over zero and the test \<^verbatim>\<open>while i\<close> never fails. With \<open>maximum = 1/2\<close>, a wait
  bound of 5 and three items queued, the counter takes the values \<open>3/2, 1/2, -1/2, -3/2\<close>;
  the worker runs the three items and ends by starvation in its fourth iteration, and
  \<open>4 > 1/2 + 1\<close>.
\<close>

theorem worker_budget_counterexample:
  "exit_by (thread_worker 1 5 (1 / 2) (pool 2 5 (1 / 2) [Some job, Some job, Some job])) =
     Starvation \<and>
   length (waits (wlog (thread_worker 1 5 (1 / 2)
     (pool 2 5 (1 / 2) [Some job, Some job, Some job])))) = 4 \<and>
   \<not> (of_nat 4 \<le> (1 / 2 :: rat) + 1)"
  by code_simp

text \<open>
  Claim C8, amended: for every budget \<open>maximum\<close> that is a natural number \<open>n\<close>. The
  counter starts at \<open>maximum + 1\<close> and one is taken off in each iteration. The worker
  ends after at most \<open>n + 1\<close> iterations, and after exactly \<open>n + 1\<close> when it ends by
  exhaustion, which it does when \<open>n + 1\<close> runnable items are there for it: items that keep
  arriving do not keep it alive. In any iteration the loop ends at once when the counter is
  zero, when the bounded wait expires on an empty queue, and when a sentinel is taken
  while the executor is gone or shutting down. A worker that ended by starvation found the
  queue empty, and one that ended on a sentinel found the executor gone or shutting down.
\<close>

theorem worker_loop_within_budget:
  "exit_by (thread_worker me bound maximum s) =
     fst (worker_loop bound (maximum + 1) s empty_log) \<and>
   length (waits (wlog (thread_worker me bound (of_nat n) s))) \<le> n + 1 \<and>
   (exit_by (thread_worker me bound (of_nat n) s) = Exhaustion \<longrightarrow>
      length (waits (wlog (thread_worker me bound (of_nat n) s))) = n + 1) \<and>
   (0 \<le> bound \<and> n + 1 \<le> length (work_queue s) \<and>
    list_all runnable (take (n + 1) (work_queue s)) \<longrightarrow>
      exit_by (thread_worker me bound (of_nat n) s) = Exhaustion) \<and>
   worker_loop bound 0 s lg = (Exhaustion, s, lg) \<and>
   (i \<noteq> 0 \<and> 0 \<le> bound \<and> work_queue s = [] \<longrightarrow>
      worker_loop bound i s lg = (Starvation, s, lg\<lparr>waits := waits lg @ [bound]\<rparr>)) \<and>
   (i \<noteq> 0 \<and> 0 \<le> bound \<and> work_queue s = None # q \<and> (\<not> alive s \<or> shutdown_flag s) \<longrightarrow>
      worker_loop bound i s lg =
        (Shut_Down, s\<lparr>work_queue := q\<rparr>, lg\<lparr>waits := waits lg @ [bound]\<rparr>)) \<and>
   (exit_by (thread_worker me bound maximum s) = Starvation \<longrightarrow>
      work_queue (final (thread_worker me bound maximum s)) = [] \<and> 0 \<le> bound) \<and>
   (exit_by (thread_worker me bound maximum s) = Shut_Down \<longrightarrow> \<not> alive s \<or> shutdown_flag s)"
  using thread_worker_exit [of me bound maximum s] thread_worker_budget [of me bound n s]
    thread_worker_exhausts [of bound n s me] worker_loop_step_exhausted [of bound s lg]
    worker_loop_step_starved [of i bound s lg] worker_loop_step_sentinel [of i bound s q lg]
    thread_worker_starved [of me bound maximum s] thread_worker_shut_down [of me bound maximum s]
  by blast

theorem worker_loop_within_budget_witness:
  "length (waits (wlog (thread_worker 1 5 (of_nat 1) (pool 2 5 1 [Some job, Some job, Some job]))))
     = 2 \<and>
   exit_by (thread_worker 1 5 (of_nat 1) (pool 2 5 1 [Some job, Some job, Some job])) = Exhaustion \<and>
   exit_by (thread_worker 1 5 (of_nat 1) (pool 2 5 1 [])) = Starvation \<and>
   work_queue (final (thread_worker 1 5 (of_nat 1) (pool 2 5 1 []))) = [] \<and>
   exit_by (thread_worker 1 5 (of_nat 1) ((pool 2 5 1 [None, Some job])\<lparr>shutdown_flag := True\<rparr>))
     = Shut_Down"
proof -
  let ?s = "pool 2 5 1 [Some job, Some job, Some job]"
  let ?e = "pool 2 5 1 []"
  let ?d = "(pool 2 5 1 [None, Some job])\<lparr>shutdown_flag := True\<rparr>"
  have full: "(0::rat) \<le> 5 \<and> 1 + 1 \<le> length (work_queue ?s) \<and>
      list_all runnable (take (1 + 1) (work_queue ?s))"
    by (simp add: pool_def runnable_def job_def)
  from worker_loop_within_budget [of 1 5 "of_nat 1" ?s 1 empty_log "of_nat 1 + 1" "[]"] full
  have a: "exit_by (thread_worker 1 5 (of_nat 1) ?s) = Exhaustion \<and>
    length (waits (wlog (thread_worker 1 5 (of_nat 1) ?s))) = 2"
    by auto
  have "(of_nat 1 + 1 :: rat) \<noteq> 0 \<and> (0::rat) \<le> 5 \<and> work_queue ?e = []"
    by (simp add: pool_def)
  with worker_loop_within_budget [of 1 5 "of_nat 1" ?e 1 empty_log "of_nat 1 + 1" "[]"]
  have b: "exit_by (thread_worker 1 5 (of_nat 1) ?e) = Starvation \<and>
    work_queue (final (thread_worker 1 5 (of_nat 1) ?e)) = []"
    by (auto simp: thread_worker_exit)
  have "(of_nat 1 + 1 :: rat) \<noteq> 0 \<and> (0::rat) \<le> 5 \<and> work_queue ?d = None # [Some job] \<and>
      (\<not> alive ?d \<or> shutdown_flag ?d)"
    by (simp add: pool_def)
  with worker_loop_within_budget [of 1 5 "of_nat 1" ?d 1 empty_log "of_nat 1 + 1" "[Some job]"]
  have c: "exit_by (thread_worker 1 5 (of_nat 1) ?d) = Shut_Down"
    by (auto simp: thread_worker_exit)
  from a b c show ?thesis by simp
qed

text \<open>The four ways out of the loop, and both kinds of fatal error, on example inputs.\<close>

lemma worker_exit_paths:
  "exit_by (thread_worker 1 5 60
     ((pool 2 5 60 [Some job])\<lparr>threads := [worker_thread 1, worker_thread 2]\<rparr>)) = Starvation"
  "exit_by (thread_worker 1 5 60
     ((pool 2 5 60 [Some job, None])\<lparr>threads := [worker_thread 1, worker_thread 2],
        shutdown_flag := True\<rparr>)) = Shut_Down"
  "exit_by (thread_worker 1 5 0
     ((pool 2 5 60 [Some job, Some job])\<lparr>threads := [worker_thread 1, worker_thread 2]\<rparr>)) =
     Exhaustion"
  "exit_by (thread_worker 1 5 60
     ((pool 2 5 60 [Some (job\<lparr>future := FINISHED_result 0\<rparr>)])\<lparr>threads :=
        [worker_thread 1, worker_thread 2]\<rparr>)) = Fatal RuntimeError"
  "exit_by (thread_worker 1 (- 1) 60
     ((pool 2 5 60 [Some job])\<lparr>threads := [worker_thread 1, worker_thread 2]\<rparr>)) =
     Fatal ValueError"
  by code_simp+

text \<open>
  Claim C9, as stated, ends with: a terminated worker is never counted in the live-worker
  set. A thread runs its target from \<^verbatim>\<open>start()\<close> on, and \<^verbatim>\<open>_spawn\<close> registers the thread
  only after \<^verbatim>\<open>start()\<close>. Take an executor whose workers have a budget of one iteration
  (timeout 0) and one item queued. The started worker runs the item, ends by exhaustion
  and discards itself from the set, where it is not yet; the remaining three steps of
  \<^verbatim>\<open>_spawn\<close> then add the terminated worker to the set.
\<close>

theorem terminated_worker_registered_counterexample:
  "started early_worker \<and>
   exit_by (thread_run early_worker early_pool) = Exhaustion \<and>
   ident early_worker \<notin> idents (threads (final (thread_run early_worker early_pool))) \<and>
   ident early_worker \<in>
     idents (threads (last (spawn_register early_worker
                              (final (thread_run early_worker early_pool)))))"
  by code_simp

text \<open>
  Claim C9, amended: however the loop ended (starvation, sentinel, exhaustion, or an
  exception caught by the outer handler), the worker discards its own thread from the
  live-worker set of the executor, provided that the weak reference still resolves, and
  touches no other thread of the set; so its thread is not in the set when the worker
  returns. When the executor is gone the set is left as it is.
\<close>

theorem worker_discards_itself:
  "threads (final (thread_worker me bound maximum s)) =
     (if alive s then threads_discard me (threads s) else threads s) \<and>
   (alive s \<longrightarrow> me \<notin> idents (threads (final (thread_worker me bound maximum s))))"
  by (simp add: thread_worker_threads threads_discard_absent)

theorem worker_discards_itself_witness:
  "alive ((pool 2 5 60 [])\<lparr>threads := [worker_thread 1, worker_thread 2]\<rparr>) \<and>
   threads (final (thread_worker 1 5 60
     ((pool 2 5 60 [])\<lparr>threads := [worker_thread 1, worker_thread 2]\<rparr>))) = [worker_thread 2] \<and>
   1 \<notin> idents (threads (final (thread_worker 1 5 60
     ((pool 2 5 60 [])\<lparr>threads := [worker_thread 1, worker_thread 2]\<rparr>))))"
  using worker_discards_itself
    [of 1 5 60 "(pool 2 5 60 [])\<lparr>threads := [worker_thread 1, worker_thread 2]\<rparr>"]
  by (simp add: pool_def threads_discard_def worker_thread_def idents_def)

section \<open>The scaling executor\<close>

subsection \<open>Spawning a worker\<close>

lemma fold_max_ge: "x \<in> set xs \<Longrightarrow> x \<le> fold max xs (m::nat)"
proof (induction xs arbitrary: m)
  case Nil then show ?case by simp
next
  case (Cons y ys)
  have mono: "\<And>a. a \<le> fold max ys a"
  proof -
    fix a show "a \<le> fold max ys (a::nat)"
      by (induction ys arbitrary: a) (auto intro: order_trans[OF max.cobounded2])
  qed
  show ?case
  proof (cases "x = y")
    case True
    have "x \<le> max x m" by simp
    also have "\<dots> \<le> fold max ys (max x m)" by (rule mono)
    finally show ?thesis using True by simp
  next
    case False
    with Cons.prems have "x \<in> set ys" by simp
    then show ?thesis using Cons.IH by simp
  qed
qed

lemma fresh_ident_new: "fresh_ident ts \<notin> idents ts"
proof
  assume "fresh_ident ts \<in> idents ts"
  then have "fresh_ident ts \<le> fold max (map ident ts) 0"
    unfolding idents_def by (rule fold_max_ge)
  then show False by (simp add: fresh_ident_def)
qed

lemma spawn_eq:
  "spawn s = s\<lparr>threads := threads s @ [\<lparr>ident = fresh_ident (threads s),
       thread_args = (of_int (divisor s), timeout s), daemon = True, started = True\<rparr>],
       management_lock := False\<rparr>"
  using fresh_ident_new [of "threads s"]
  by (simp add: spawn_def spawn_trace_def spawn_start_def spawn_register_def Thread_new_def
      threads_add_def Let_def)

lemma spawn_times_eq:
  "\<exists>new. length new = n \<and>
     list_all (\<lambda>t. started t \<and> daemon t \<and>
                    thread_args t = (of_int (divisor s), timeout s) \<and>
                    ident t \<notin> idents (threads s)) new \<and>
     distinct (map ident new) \<and>
     spawn_times n s =
       s\<lparr>threads := threads s @ new,
         management_lock := (if n = 0 then management_lock s else False)\<rparr>"
proof (induction n arbitrary: s)
  case 0
  show ?case by simp
next
  case (Suc n)
  define t where "t = last (spawn_start s)"
  have t: "t = \<lparr>ident = fresh_ident (threads s),
       thread_args = (of_int (divisor s), timeout s), daemon = True, started = True\<rparr>"
    by (simp add: t_def spawn_start_def Thread_new_def Let_def)
  have sp: "spawn s = s\<lparr>threads := threads s @ [t], management_lock := False\<rparr>"
    by (simp add: spawn_eq t)
  have fresh: "ident t \<notin> idents (threads s)"
    using fresh_ident_new [of "threads s"] by (simp add: t)
  from Suc.IH [of "spawn s"] obtain new where new: "length new = n"
    "list_all (\<lambda>u. started u \<and> daemon u \<and>
                   thread_args u = (of_int (divisor (spawn s)), timeout (spawn s)) \<and>
                   ident u \<notin> idents (threads (spawn s))) new"
    "distinct (map ident new)"
    "spawn_times n (spawn s) =
       (spawn s)\<lparr>threads := threads (spawn s) @ new,
         management_lock := (if n = 0 then management_lock (spawn s) else False)\<rparr>"
    by blast
  have old: "idents (threads (spawn s)) = insert (ident t) (idents (threads s))"
    by (auto simp: sp idents_def)
  from new(2) have each: "\<forall>u \<in> set new. started u \<and> daemon u \<and>
      thread_args u = (of_int (divisor s), timeout s) \<and>
      ident u \<notin> idents (threads s) \<and> ident u \<noteq> ident t"
    by (simp add: list_all_iff old) (simp add: sp)
  show ?case
  proof (intro exI conjI)
    show "length (t # new) = Suc n" using new(1) by simp
    show "list_all (\<lambda>u. started u \<and> daemon u \<and>
                    thread_args u = (of_int (divisor s), timeout s) \<and>
                    ident u \<notin> idents (threads s)) (t # new)"
      using each fresh by (simp add: list_all_iff) (simp add: t)
    show "distinct (map ident (t # new))"
      using each new(3) by auto
    show "spawn_times (Suc n) s =
       s\<lparr>threads := threads s @ t # new,
         management_lock := (if Suc n = 0 then management_lock s else False)\<rparr>"
      by (simp add: new(4)) (simp add: sp)
  qed
qed

text \<open>
  Claim C1. The thread that \<^verbatim>\<open>_spawn\<close> starts and registers carries the divisor of the
  executor as third and its timeout as fourth positional argument. The target takes the
  third as its parameter \<^verbatim>\<open>timeout\<close>, the bound of every wait on the queue, and the
  fourth as \<^verbatim>\<open>maximum\<close>, the iteration budget. So the worker waits on the queue with the
  bound \<open>divisor\<close> and with no other bound, at least once unless the timeout is \<open>-1\<close>, and
  its counter starts at \<open>timeout + 1\<close>. With a timeout that is a natural number \<open>n\<close> the
  worker iterates at most \<open>n + 1\<close> times; on a queue of runnable items, and with a divisor
  that is not negative, it waits exactly once for each item and once more, or \<open>n + 1\<close>
  times if that is less.
\<close>

theorem spawn_passes_divisor_as_wait_bound:
  "let t = last (spawn_start s) in
     threads (spawn s) = threads s @ [t] \<and> started t \<and>
     thread_args t = (of_int (divisor s), timeout s) \<and>
     thread_run t s' = thread_worker (ident t) (of_int (divisor s)) (timeout s) s' \<and>
     set (waits (wlog (thread_run t s'))) \<subseteq> {of_int (divisor s)} \<and>
     exit_by (thread_run t s') =
       fst (worker_loop (of_int (divisor s)) (timeout s + 1) s' empty_log) \<and>
     (timeout s = of_nat n \<longrightarrow> length (waits (wlog (thread_run t s'))) \<le> n + 1) \<and>
     (timeout s + 1 \<noteq> 0 \<longrightarrow> set (waits (wlog (thread_run t s'))) = {of_int (divisor s)}) \<and>
     (0 \<le> divisor s \<and> timeout s = of_nat n \<and> list_all runnable (work_queue s') \<longrightarrow>
        waits (wlog (thread_run t s')) =
          replicate (min (n + 1) (length (work_queue s') + 1)) (of_int (divisor s)))"
proof -
  define t where "t = last (spawn_start s)"
  have t: "t = \<lparr>ident = fresh_ident (threads s),
       thread_args = (of_int (divisor s), timeout s), daemon = True, started = True\<rparr>"
    by (simp add: t_def spawn_start_def Thread_new_def Let_def)
  have run: "thread_run t s' = thread_worker (ident t) (of_int (divisor s)) (timeout s) s'"
    by (simp add: thread_run_def t)
  have "threads (spawn s) = threads s @ [t]" by (simp add: t spawn_eq)
  moreover have "started t" "thread_args t = (of_int (divisor s), timeout s)"
    by (simp_all add: t)
  moreover note run
  moreover have "set (waits (wlog (thread_run t s'))) \<subseteq> {of_int (divisor s)}"
    unfolding run by (rule thread_worker_waits)
  moreover have "exit_by (thread_run t s') =
       fst (worker_loop (of_int (divisor s)) (timeout s + 1) s' empty_log)"
    unfolding run by (rule thread_worker_exit)
  moreover have "timeout s = of_nat n \<longrightarrow> length (waits (wlog (thread_run t s'))) \<le> n + 1"
    unfolding run using thread_worker_budget [of "ident t" "of_int (divisor s)" n s'] by simp
  moreover have "timeout s + 1 \<noteq> 0 \<longrightarrow>
      set (waits (wlog (thread_run t s'))) = {of_int (divisor s)}"
    unfolding run by (simp add: thread_worker_first_wait)
  moreover have "0 \<le> divisor s \<and> timeout s = of_nat n \<and> list_all runnable (work_queue s') \<longrightarrow>
        waits (wlog (thread_run t s')) =
          replicate (min (n + 1) (length (work_queue s') + 1)) (of_int (divisor s))"
    unfolding run
    using thread_worker_runnable_waits [of "of_int (divisor s)" s' "ident t" n] by simp
  ultimately show ?thesis
    unfolding t_def [symmetric] Let_def by blast
qed

theorem spawn_passes_divisor_as_wait_bound_witness:
  "thread_args (last (spawn_start (pool 2 5 60 []))) = (5, 60) \<and>
   0 \<le> divisor (pool 2 5 60 []) \<and> timeout (pool 2 5 60 []) = of_nat 60 \<and>
   timeout (pool 2 5 60 []) + 1 \<noteq> 0 \<and>
   list_all runnable (work_queue (pool 2 5 60 [Some job, Some job])) \<and>
   waits (wlog (thread_run (last (spawn_start (pool 2 5 60 [])))
          (pool 2 5 60 [Some job, Some job]))) = [5, 5, 5] \<and>
   set (waits (wlog (thread_run (last (spawn_start (pool 2 5 60 [])))
          (pool 2 5 60 [Some job, Some job])))) = {5} \<and>
   length (waits (wlog (thread_run (last (spawn_start (pool 2 5 60 [])))
          (pool 2 5 60 [Some job, Some job])))) \<le> 61"
proof -
  have t: "timeout (pool 2 5 60 []) = of_nat 60" "divisor (pool 2 5 60 []) = 5"
    by (simp_all add: pool_def)
  have r: "list_all runnable (work_queue (pool 2 5 60 [Some job, Some job]))"
    "length (work_queue (pool 2 5 60 [Some job, Some job])) = 2"
    by (simp_all add: pool_def runnable_def job_def)
  have m: "replicate (min (60 + 1) (2 + 1)) (5 :: rat) = [5, 5, 5]"
    by (simp add: numeral_3_eq_3)
  from spawn_passes_divisor_as_wait_bound
    [of "pool 2 5 60 []" "pool 2 5 60 [Some job, Some job]" 60]
  have "thread_args (last (spawn_start (pool 2 5 60 []))) = (5, 60) \<and>
    waits (wlog (thread_run (last (spawn_start (pool 2 5 60 [])))
          (pool 2 5 60 [Some job, Some job]))) = [5, 5, 5]"
    unfolding Let_def t r using r(1) m by (elim conjE) simp
  then show ?thesis
    using t r(1) by simp
qed

text \<open>
  Claim C7, as stated: the new worker is registered in the live-worker set before its
  thread is allowed to run. In \<^verbatim>\<open>_spawn\<close> the call \<^verbatim>\<open>t.start()\<close> comes first. After the
  third step the thread is started and is not in the set, and it can run its loop there:
  on the example it takes the queued item and runs it before it is registered.
\<close>

theorem spawn_starts_before_registering_counterexample:
  "started (snd (spawn_trace (pool 2 5 60 [Some job]) ! 2)) \<and>
   ident (snd (spawn_trace (pool 2 5 60 [Some job]) ! 2)) \<notin>
     idents (threads (fst (spawn_trace (pool 2 5 60 [Some job]) ! 2))) \<and>
   map effects (ran (wlog (thread_run (snd (spawn_trace (pool 2 5 60 [Some job]) ! 2))
                              (fst (spawn_trace (pool 2 5 60 [Some job]) ! 2))))) =
     [[Invoked 41, Set_Result 42]]"
  by code_simp

text \<open>
  Claim C7, amended: whenever the executor spawns a worker, the thread is created, made a
  daemon and started first, and is registered in the live-worker set afterwards, while
  the management lock is held; when \<^verbatim>\<open>_spawn\<close> returns the thread is started and
  registered and the lock is free. The three columns below are, after each of the six
  steps: the thread is started, the thread is in the set, the lock is held.
\<close>

theorem spawn_starts_then_registers:
  "map (\<lambda>(s', t). (started t, ident t \<in> idents (threads s'), management_lock s'))
     (spawn_trace s) =
     [(False, False, management_lock s), (False, False, management_lock s),
      (True, False, management_lock s), (True, False, True), (True, True, True),
      (True, True, False)] \<and>
   map snd (spawn_trace s) =
     [Thread_new s, (Thread_new s)\<lparr>daemon := True\<rparr>, last (spawn_start s),
      last (spawn_start s), last (spawn_start s), last (spawn_start s)] \<and>
   spawn s = s\<lparr>threads := threads s @ [last (spawn_start s)], management_lock := False\<rparr>"
  using fresh_ident_new [of "threads s"]
  by (simp add: spawn_def spawn_trace_def spawn_start_def spawn_register_def Thread_new_def
      threads_add_def Let_def idents_def)

theorem spawn_starts_then_registers_witness:
  "map (\<lambda>(s', t). (started t, ident t \<in> idents (threads s'), management_lock s'))
     (spawn_trace (pool 2 5 60 [Some job])) =
     [(False, False, False), (False, False, False), (True, False, False),
      (True, False, True), (True, True, True), (True, True, False)] \<and>
   map ident (threads (spawn (pool 2 5 60 [Some job]))) = [1]"
  using spawn_starts_then_registers [of "pool 2 5 60 [Some job]"]
  by (simp add: pool_def spawn_start_def Thread_new_def fresh_ident_def)

subsection \<open>The scaling adjustment\<close>

lemma py_float_of_int:
  "py_float (of_int d) = (if float_limit \<le> \<bar>d\<bar> then Inl OverflowError else Inr (of_int d))"
proof -
  have "(of_int float_limit \<le> \<bar>of_int d :: rat\<bar>) = (float_limit \<le> \<bar>d\<bar>)"
    by (simp only: of_int_abs [symmetric] of_int_le_iff)
  then show ?thesis by (simp add: py_float_def)
qed

lemma optimum_workers_cases:
  "optimum_workers s =
     (if float_limit \<le> \<bar>divisor s\<bar> then Inl OverflowError
      else if divisor s = 0 then Inl ZeroDivisionError
      else Inr (spec_optimum (max_workers s) (length (work_queue s)) (divisor s)))"
  by (simp add: optimum_workers_def py_float_of_int spec_optimum_def)

lemma optimum_workers_eq:
  "divisor s \<noteq> 0 \<Longrightarrow> \<bar>divisor s\<bar> < float_limit \<Longrightarrow>
     optimum_workers s = Inr (spec_optimum (max_workers s) (length (work_queue s)) (divisor s))"
  by (simp add: optimum_workers_cases)

lemma optimum_workers_InrD:
  "optimum_workers s = Inr k \<Longrightarrow> divisor s \<noteq> 0 \<and> \<bar>divisor s\<bar> < float_limit"
  by (simp add: optimum_workers_cases split: if_splits)

lemma adjust_thread_count_eq:
  "divisor s \<noteq> 0 \<Longrightarrow> \<bar>divisor s\<bar> < float_limit \<Longrightarrow>
     adjust_thread_count s =
       Inr (if int (length (threads s)) <
               spec_optimum (max_workers s) (length (work_queue s)) (divisor s)
            then spawn_times
                   (nat (spec_optimum (max_workers s) (length (work_queue s)) (divisor s) -
                         int (length (threads s)))) s
            else s)"
  by (simp add: adjust_thread_count_def optimum_workers_eq Let_def)

lemma adjust_thread_count_InrD:
  "adjust_thread_count s = Inr s' \<Longrightarrow> divisor s \<noteq> 0 \<and> \<bar>divisor s\<bar> < float_limit"
  by (cases "optimum_workers s")
     (auto simp: adjust_thread_count_def Let_def dest: optimum_workers_InrD)

lemma adjust_thread_count_InlD:
  "adjust_thread_count s = Inl err \<Longrightarrow> divisor s = 0 \<or> float_limit \<le> \<bar>divisor s\<bar>"
proof (rule ccontr)
  assume a: "adjust_thread_count s = Inl err"
    and "\<not> (divisor s = 0 \<or> float_limit \<le> \<bar>divisor s\<bar>)"
  then have "divisor s \<noteq> 0" "\<bar>divisor s\<bar> < float_limit" by simp_all
  from adjust_thread_count_eq [OF this] a show False by simp
qed

lemma adjust_thread_count_within_max:
  assumes "adjust_thread_count s = Inr s'"
  shows "work_queue s' = work_queue s \<and> max_workers s' = max_workers s \<and>
     divisor s' = divisor s \<and> shutdown_flag s' = shutdown_flag s \<and>
     (int (length (threads s)) \<le> max_workers s \<longrightarrow> int (length (threads s')) \<le> max_workers s')"
proof -
  define optimum where
    "optimum = spec_optimum (max_workers s) (length (work_queue s)) (divisor s)"
  have le: "optimum \<le> max_workers s"
    by (simp add: optimum_def spec_optimum_def)
  from adjust_thread_count_InrD [OF assms]
  have d: "divisor s \<noteq> 0" "\<bar>divisor s\<bar> < float_limit" by simp_all
  show ?thesis
  proof (cases "int (length (threads s)) < optimum")
    case True
    from spawn_times_eq [of "nat (optimum - int (length (threads s)))" s] obtain new where
      new: "length new = nat (optimum - int (length (threads s)))"
        "spawn_times (nat (optimum - int (length (threads s)))) s =
           s\<lparr>threads := threads s @ new,
             management_lock :=
               (if nat (optimum - int (length (threads s))) = 0 then management_lock s
                else False)\<rparr>"
      by blast
    from assms d True have "s' = spawn_times (nat (optimum - int (length (threads s)))) s"
      by (simp add: adjust_thread_count_eq optimum_def)
    with new True le show ?thesis by simp
  next
    case False
    with assms d have "s' = s"
      by (simp add: adjust_thread_count_eq optimum_def)
    then show ?thesis by simp
  qed
qed

text \<open>
  Claim C2, as stated: after every submission the scaling adjustment computes the optimum
  and spawns the missing workers. The adjustment computes nothing when the conversion
  \<^verbatim>\<open>float(self.divisor)\<close> or the division raises: with eleven items queued and no
  worker, a divisor of zero gives \<^verbatim>\<open>ZeroDivisionError\<close> and a divisor of \<open>2^1024\<close>
  gives \<^verbatim>\<open>OverflowError\<close>, and no worker is spawned.
\<close>

theorem adjust_thread_count_raises_counterexample:
  "adjust_thread_count (pool 2 0 60 (replicate 11 (Some job))) = Inl ZeroDivisionError \<and>
   adjust_thread_count (pool 2 (2 ^ 1024) 60 (replicate 11 (Some job))) = Inl OverflowError"
proof -
  have "float_limit \<le> \<bar>2 ^ 1024 :: int\<bar>" "\<not> float_limit \<le> \<bar>0 :: int\<bar>"
    by (simp_all add: float_limit_def)
  then show ?thesis
    by (simp add: adjust_thread_count_def optimum_workers_cases pool_def Let_def)
qed

text \<open>
  Claim C2, amended: with a divisor that is not zero and that \<^verbatim>\<open>float\<close> can convert, the
  scaling adjustment computes the optimum of the specification,
  \<open>min(max_workers, ceil(queue_depth / divisor))\<close>. When the number of threads in the set
  is below the optimum it spawns exactly the difference: the set grows by that many
  threads, each of them a started daemon thread that carries the divisor and the timeout
  of the executor as its arguments, with an identity of its own that was not in the set.
  Otherwise it changes nothing. The queue is left as it is. A number of threads that does
  not exceed the configured maximum does not exceed it afterwards.
\<close>

theorem adjust_thread_count_spawns_to_optimum:
  "divisor s \<noteq> 0 \<Longrightarrow> \<bar>divisor s\<bar> < float_limit \<Longrightarrow>
     optimum_workers s =
       Inr (spec_optimum (max_workers s) (length (work_queue s)) (divisor s)) \<and>
     (\<exists>s' (new :: thread list).
        adjust_thread_count s = Inr s' \<and>
        threads s' = threads s @ new \<and>
        work_queue s' = work_queue s \<and> max_workers s' = max_workers s \<and>
        (if int (length (threads s)) <
              spec_optimum (max_workers s) (length (work_queue s)) (divisor s)
         then int (length new) =
                spec_optimum (max_workers s) (length (work_queue s)) (divisor s) -
                int (length (threads s))
         else s' = s) \<and>
        list_all (\<lambda>t :: thread. started t \<and> daemon t \<and>
                       thread_args t = (of_int (divisor s), timeout s) \<and>
                       ident t \<notin> idents (threads s)) new \<and>
        distinct (map ident new) \<and>
        s' = s\<lparr>threads := threads s @ new,
               management_lock := (if new = [] then management_lock s else False)\<rparr> \<and>
        (int (length (threads s)) \<le> max_workers s \<longrightarrow>
           int (length (threads s')) \<le> max_workers s'))"
proof (intro conjI)
  assume d: "divisor s \<noteq> 0" "\<bar>divisor s\<bar> < float_limit"
  define optimum where
    "optimum = spec_optimum (max_workers s) (length (work_queue s)) (divisor s)"
  define pool where "pool = int (length (threads s))"
  define spawned where
    "spawned = (\<lambda>t :: thread. started t \<and> daemon t \<and>
                     thread_args t = (of_int (divisor s), timeout s) \<and>
                     ident t \<notin> idents (threads s))"
  have pl: "int (length (threads s)) = pool"
    by (simp add: pool_def)
  have le: "optimum \<le> max_workers s"
    by (simp add: optimum_def spec_optimum_def)
  show "optimum_workers s =
      Inr (spec_optimum (max_workers s) (length (work_queue s)) (divisor s))"
    using d by (rule optimum_workers_eq)
  show "\<exists>s' (new :: thread list).
        adjust_thread_count s = Inr s' \<and>
        threads s' = threads s @ new \<and>
        work_queue s' = work_queue s \<and> max_workers s' = max_workers s \<and>
        (if int (length (threads s)) <
              spec_optimum (max_workers s) (length (work_queue s)) (divisor s)
         then int (length new) =
                spec_optimum (max_workers s) (length (work_queue s)) (divisor s) -
                int (length (threads s))
         else s' = s) \<and>
        list_all (\<lambda>t :: thread. started t \<and> daemon t \<and>
                       thread_args t = (of_int (divisor s), timeout s) \<and>
                       ident t \<notin> idents (threads s)) new \<and>
        distinct (map ident new) \<and>
        s' = s\<lparr>threads := threads s @ new,
               management_lock := (if new = [] then management_lock s else False)\<rparr> \<and>
        (int (length (threads s)) \<le> max_workers s \<longrightarrow>
           int (length (threads s')) \<le> max_workers s')"
    unfolding optimum_def [symmetric] pool_def [symmetric] spawned_def [symmetric]
  proof (cases "pool < optimum")
    case True
    from spawn_times_eq [of "nat (optimum - pool)" s] obtain new where
      new: "length new = nat (optimum - pool)" "list_all spawned new" "distinct (map ident new)"
        "spawn_times (nat (optimum - pool)) s =
           s\<lparr>threads := threads s @ new,
             management_lock :=
               (if nat (optimum - pool) = 0 then management_lock s else False)\<rparr>"
      unfolding spawned_def by blast
    have adj: "adjust_thread_count s = Inr (spawn_times (nat (optimum - pool)) s)"
      using d True by (simp add: adjust_thread_count_eq optimum_def pool_def)
    from True new(1) have len: "int (length new) = optimum - pool" "new \<noteq> []" by auto
    show "\<exists>s' (new :: thread list).
        adjust_thread_count s = Inr s' \<and> threads s' = threads s @ new \<and>
        work_queue s' = work_queue s \<and> max_workers s' = max_workers s \<and>
        (if pool < optimum then int (length new) = optimum - pool else s' = s) \<and>
        list_all spawned new \<and> distinct (map ident new) \<and>
        s' = s\<lparr>threads := threads s @ new,
               management_lock := (if new = [] then management_lock s else False)\<rparr> \<and>
        (pool \<le> max_workers s \<longrightarrow> int (length (threads s')) \<le> max_workers s')"
      apply (rule exI [of _ "spawn_times (nat (optimum - pool)) s"])
      apply (rule exI [of _ new])
      using True le len adj pl new(2,3)
      apply (simp add: new(4))
      done
  next
    case False
    have adj: "adjust_thread_count s = Inr s"
      using d False by (simp add: adjust_thread_count_eq optimum_def pool_def)
    show "\<exists>s' (new :: thread list).
        adjust_thread_count s = Inr s' \<and> threads s' = threads s @ new \<and>
        work_queue s' = work_queue s \<and> max_workers s' = max_workers s \<and>
        (if pool < optimum then int (length new) = optimum - pool else s' = s) \<and>
        list_all spawned new \<and> distinct (map ident new) \<and>
        s' = s\<lparr>threads := threads s @ new,
               management_lock := (if new = [] then management_lock s else False)\<rparr> \<and>
        (pool \<le> max_workers s \<longrightarrow> int (length (threads s')) \<le> max_workers s')"
      apply (rule exI [of _ s])
      apply (rule exI [of _ "[]"])
      using False adj pl
      apply simp
      done
  qed
qed

theorem adjust_thread_count_spawns_to_optimum_witness:
  "divisor (pool 2 5 60 (replicate 11 (Some job))) \<noteq> 0 \<and>
   \<bar>divisor (pool 2 5 60 (replicate 11 (Some job)))\<bar> < float_limit \<and>
   spec_optimum 2 11 5 = 2 \<and>
   (\<exists>s'. adjust_thread_count (pool 2 5 60 (replicate 11 (Some job))) = Inr s' \<and>
         length (threads s') = 2 \<and>
         list_all (\<lambda>t. started t \<and> daemon t \<and> thread_args t = (5, 60)) (threads s') \<and>
         distinct (map ident (threads s')) \<and>
         work_queue s' = replicate 11 (Some job))"
proof -
  let ?p = "pool 2 5 60 (replicate 11 (Some job))"
  have d: "divisor ?p \<noteq> 0" "\<bar>divisor ?p\<bar> < float_limit"
    by (simp_all add: pool_def float_limit_def)
  have o: "spec_optimum 2 11 5 = 2"
    by (simp add: spec_optimum_def)
  have p: "threads ?p = []" "max_workers ?p = 2" "divisor ?p = 5" "timeout ?p = 60"
    "work_queue ?p = replicate 11 (Some job)"
    by (simp_all add: pool_def)
  from adjust_thread_count_spawns_to_optimum [OF d] obtain s' new where
    "adjust_thread_count ?p = Inr s'"
    "threads s' = threads ?p @ new"
    "work_queue s' = work_queue ?p"
    "if int (length (threads ?p)) <
          spec_optimum (max_workers ?p) (length (work_queue ?p)) (divisor ?p)
     then int (length new) =
            spec_optimum (max_workers ?p) (length (work_queue ?p)) (divisor ?p) -
            int (length (threads ?p))
     else s' = ?p"
    "list_all (\<lambda>t. started t \<and> daemon t \<and>
                   thread_args t = (of_int (divisor ?p), timeout ?p) \<and>
                   ident t \<notin> idents (threads ?p)) new"
    "distinct (map ident new)"
    by blast
  then have "adjust_thread_count ?p = Inr s' \<and> length (threads s') = 2 \<and>
      list_all (\<lambda>t. started t \<and> daemon t \<and> thread_args t = (5, 60)) (threads s') \<and>
      distinct (map ident (threads s')) \<and> work_queue s' = replicate 11 (Some job)"
    by (simp add: p o list_all_iff)
  with d o show ?thesis by blast
qed

text \<open>
  The adjustment runs at the end of every submission. No run of submissions takes the
  number of threads above the maximum; eleven submissions to an executor with
  \<^verbatim>\<open>workers=2, divisor=5\<close> leave two threads and eleven queued items.
\<close>

lemma submit_within_max:
  assumes "int (length (threads s)) \<le> max_workers s"
  shows "int (length (threads (snd (submit s f a)))) \<le> max_workers (snd (submit s f a))"
proof (cases "shutdown_flag s")
  case True
  with assms show ?thesis by (simp add: submit_def)
next
  case False
  let ?s1 = "s\<lparr>work_queue := work_queue s @ [Some \<lparr>future = PENDING, fn = f, args = a\<rparr>]\<rparr>"
  show ?thesis
  proof (cases "adjust_thread_count ?s1")
    case (Inl err)
    with False assms show ?thesis by (simp add: submit_def Let_def)
  next
    case (Inr s2)
    from adjust_thread_count_within_max [OF Inr] assms
    have "int (length (threads s2)) \<le> max_workers s2" by simp
    with False Inr show ?thesis by (simp add: submit_def Let_def)
  qed
qed

lemma submit_all_within_max:
  "int (length (threads s)) \<le> max_workers s \<Longrightarrow> submit_all s jobs = Inr s' \<Longrightarrow>
     int (length (threads s')) \<le> max_workers s'"
proof (induction jobs arbitrary: s)
  case Nil
  then show ?case by simp
next
  case (Cons j jobs)
  obtain f a where j: "j = (f, a)" by (cases j)
  obtain r s1 where sub: "submit s f a = (r, s1)" by (cases "submit s f a")
  from submit_within_max [OF Cons.prems(1), of f a] sub
  have s1: "int (length (threads s1)) \<le> max_workers s1" by simp
  from Cons.prems(2) j sub obtain fut where "r = Inr fut" "submit_all s1 jobs = Inr s'"
    by (cases r) simp_all
  with Cons.IH [OF s1] show ?case by simp
qed

lemma eleven_submissions_two_workers:
  "(case submit_all (pool 2 5 60 []) (replicate 11 (fn job, args job)) of
      Inl err \<Rightarrow> None
    | Inr s \<Rightarrow> Some (length (threads s), length (work_queue s))) = Some (2, 11)"
  by code_simp

lemma init_max_workers:
  "ScalingPoolExecutor_init workers d t = Inr s \<Longrightarrow>
     0 < max_workers s \<and> max_workers s = workers \<and> divisor s = d \<and> timeout s = t \<and>
     work_queue s = [] \<and> threads s = [] \<and> \<not> shutdown_flag s \<and> alive s"
  by (auto simp: ScalingPoolExecutor_init_def split: if_splits)

text \<open>
  Claim C10, as stated: for every executor with a divisor of at least one,
  \<^verbatim>\<open>_optimum_workers\<close> is well defined. The conversion \<^verbatim>\<open>float(self.divisor)\<close> raises
  \<^verbatim>\<open>OverflowError\<close> on a divisor of \<open>2^1024\<close>, which the constructor accepts like any
  other.
\<close>

theorem optimum_workers_overflow_counterexample:
  "1 \<le> divisor (pool 2 (2 ^ 1024) 60 [Some job]) \<and>
   0 < max_workers (pool 2 (2 ^ 1024) 60 [Some job]) \<and>
   ScalingPoolExecutor_init 2 (2 ^ 1024) 60 = Inr (pool 2 (2 ^ 1024) 60 []) \<and>
   optimum_workers (pool 2 (2 ^ 1024) 60 [Some job]) = Inl OverflowError"
proof -
  have "float_limit \<le> \<bar>2 ^ 1024 :: int\<bar>"
    by (simp add: float_limit_def)
  then show ?thesis
    by (simp add: optimum_workers_cases pool_def ScalingPoolExecutor_init_def)
qed

text \<open>
  Claim C10, amended: with a divisor of at least one that \<^verbatim>\<open>float\<close> can convert (and
  the positive worker maximum that the constructor insists on) \<open>optimum_workers\<close> returns
  an integer between zero and the maximum. With a divisor of zero the division raises:
  so does every scaling adjustment, and so does every submission, with this error
  whenever the submission gets as far as the adjustment, that is, before shutdown.
  \<^verbatim>\<open>DynamicManager.__init__\<close>, when it returns, has taken a divisor of zero from the
  configuration as it is, and \<^verbatim>\<open>startup\<close> hands it to the executor.
\<close>

theorem optimum_workers_range_and_zero_divisor:
  "(1 \<le> divisor s \<and> divisor s < float_limit \<and> 0 < max_workers s \<longrightarrow>
      (\<exists>k. optimum_workers s = Inr k \<and> 0 \<le> k \<and> k \<le> max_workers s)) \<and>
   (divisor s = 0 \<longrightarrow>
      optimum_workers s = Inl ZeroDivisionError \<and>
      adjust_thread_count s = Inl ZeroDivisionError \<and>
      (\<exists>err. fst (submit s f a) = Inl err) \<and>
      (\<not> shutdown_flag s \<longrightarrow> fst (submit s f a) = Inl ZeroDivisionError)) \<and>
   (config ''divisor'' = Some 0 \<and>
    \<bar>config_get config ''timeout'' 60\<bar> < of_int float_limit \<longrightarrow>
      (\<exists>m :: ('a, 'e, 'r) DynamicManager.
         DynamicManager_init config = Inr m \<and> m_divisor m = 0 \<and>
         (0 < m_workers m \<longrightarrow>
            (\<exists>ex. startup m = Inr (m\<lparr>m_executor := Some ex\<rparr>) \<and>
                  divisor ex = 0 \<and> \<not> shutdown_flag ex))))"
proof (intro conjI impI)
  assume "1 \<le> divisor s \<and> divisor s < float_limit \<and> 0 < max_workers s"
  then have d: "0 < divisor s" "\<bar>divisor s\<bar> < float_limit" and m: "0 < max_workers s"
    by simp_all
  have "(0::rat) \<le> of_nat (length (work_queue s)) / of_int (divisor s)"
    using d by simp
  then have "0 \<le> \<lceil>(of_nat (length (work_queue s)) :: rat) / of_int (divisor s)\<rceil>"
    by (simp add: zero_le_ceiling order_less_le_trans [of "- 1" 0])
  with d m show "\<exists>k. optimum_workers s = Inr k \<and> 0 \<le> k \<and> k \<le> max_workers s"
    by (simp add: optimum_workers_cases spec_optimum_def)
next
  assume z: "divisor s = 0"
  have lim: "\<not> float_limit \<le> \<bar>0 :: int\<bar>"
    by (simp add: float_limit_def)
  from z lim show o: "optimum_workers s = Inl ZeroDivisionError"
    by (simp add: optimum_workers_cases)
  from o show "adjust_thread_count s = Inl ZeroDivisionError"
    by (simp add: adjust_thread_count_def)
  have o': "optimum_workers (s\<lparr>work_queue := q\<rparr>) = Inl ZeroDivisionError" for q
    using z lim by (simp add: optimum_workers_cases)
  show "\<exists>err. fst (submit s f a) = Inl err"
    by (simp add: submit_def adjust_thread_count_def o' Let_def)
  assume "\<not> shutdown_flag s"
  then show "fst (submit s f a) = Inl ZeroDivisionError"
    by (simp add: submit_def adjust_thread_count_def o' Let_def)
next
  assume c: "config ''divisor'' = Some 0 \<and>
    \<bar>config_get config ''timeout'' 60\<bar> < of_int float_limit"
  then have t: "py_float (config_get config ''timeout'' 60) = Inr (config_get config ''timeout'' 60)"
    by (simp add: py_float_def)
  from c show "\<exists>m :: ('a, 'e, 'r) DynamicManager.
         DynamicManager_init config = Inr m \<and> m_divisor m = 0 \<and>
         (0 < m_workers m \<longrightarrow>
            (\<exists>ex. startup m = Inr (m\<lparr>m_executor := Some ex\<rparr>) \<and>
                  divisor ex = 0 \<and> \<not> shutdown_flag ex))"
  proof -
    from c have dv: "py_int (config_get config ''divisor'' 10) = 0"
      by (simp add: config_get_def py_int_def)
    show ?thesis
      by (simp add: DynamicManager_init_def t dv startup_def ScalingPoolExecutor_init_def)
  qed
qed

theorem optimum_workers_range_and_zero_divisor_witness:
  "1 \<le> divisor (pool 2 5 60 (replicate 11 (Some job))) \<and>
   divisor (pool 2 5 60 (replicate 11 (Some job))) < float_limit \<and>
   0 < max_workers (pool 2 5 60 (replicate 11 (Some job))) \<and>
   optimum_workers (pool 2 5 60 (replicate 11 (Some job))) = Inr 2 \<and>
   divisor (pool 2 0 60 []) = 0 \<and> \<not> shutdown_flag (pool 2 0 60 []) \<and>
   adjust_thread_count (pool 2 0 60 []) = Inl ZeroDivisionError \<and>
   fst (submit (pool 2 0 60 []) (fn job) (args job)) = Inl ZeroDivisionError \<and>
   [''divisor'' \<mapsto> (0::rat)] ''divisor'' = Some 0 \<and>
   \<bar>config_get [''divisor'' \<mapsto> 0] ''timeout'' 60\<bar> < of_int float_limit \<and>
   (\<exists>m :: (nat, string, nat) DynamicManager.
      DynamicManager_init [''divisor'' \<mapsto> 0] = Inr m \<and> m_divisor m = 0 \<and> m_workers m = 10 \<and>
      (\<exists>ex. startup m = Inr (m\<lparr>m_executor := Some ex\<rparr>) \<and> divisor ex = 0))"
proof -
  have lim: "(5::int) < float_limit" "(60::rat) < of_int float_limit"
    by (simp_all add: float_limit_def)
  have o: "optimum_workers (pool 2 5 60 (replicate 11 (Some job))) = Inr 2"
    using lim(1) by (simp add: optimum_workers_cases spec_optimum_def pool_def)
  have c: "[''divisor'' \<mapsto> (0::rat)] ''divisor'' = Some 0 \<and>
      \<bar>config_get [''divisor'' \<mapsto> 0] ''timeout'' 60\<bar> < of_int float_limit"
    using lim(2) by (simp add: config_get_def)
  have t: "py_float 60 = Inr 60"
    using lim(2) by (simp add: py_float_def)
  have w: "\<And>m :: (nat, string, nat) DynamicManager.
      DynamicManager_init [''divisor'' \<mapsto> 0] = Inr m \<Longrightarrow> m_workers m = 10"
    by (auto simp: DynamicManager_init_def config_get_def py_int_def t)
  from optimum_workers_range_and_zero_divisor
    [of "pool 2 0 60 []" "fn job" "args job" "[''divisor'' \<mapsto> 0]",
     where ?'a = nat and ?'e = string and ?'r = nat] c
  obtain m :: "(nat, string, nat) DynamicManager" where
    m: "DynamicManager_init [''divisor'' \<mapsto> 0] = Inr m" "m_divisor m = 0"
      "0 < m_workers m \<longrightarrow>
         (\<exists>ex. startup m = Inr (m\<lparr>m_executor := Some ex\<rparr>) \<and> divisor ex = 0 \<and> \<not> shutdown_flag ex)"
    by blast
  from w [OF m(1)] m(3) have st: "\<exists>ex. startup m = Inr (m\<lparr>m_executor := Some ex\<rparr>) \<and> divisor ex = 0"
    by auto
  have z: "adjust_thread_count (pool 2 0 60 []) = Inl ZeroDivisionError \<and>
      fst (submit (pool 2 0 60 []) (fn job) (args job)) = Inl ZeroDivisionError"
    using optimum_workers_range_and_zero_divisor
      [of "pool 2 0 60 []" "fn job" "args job" "[''divisor'' \<mapsto> 0]",
       where ?'a = nat and ?'e = string and ?'r = nat]
    by (simp add: pool_def)
  from o z c lim(1) m(1,2) w [OF m(1)] st show ?thesis
    by (auto simp: pool_def)
qed

subsection \<open>Shutdown and submission\<close>

text \<open>
  Claim C5. \<^verbatim>\<open>shutdown(wait)\<close> sets the flag, puts one sentinel on the queue for each
  thread of the live-worker set and, when \<^verbatim>\<open>wait\<close> is true, joins each of these threads;
  it has no way to raise. A second call leaves the flag set and the set of threads as it
  was: it spawns nothing.
\<close>

theorem shutdown_flag_sentinels_joins:
  "shutdown s wait =
     (s\<lparr>shutdown_flag := True,
        work_queue := work_queue s @ replicate (length (threads s)) None\<rparr>,
      if wait then map ident (threads s) else []) \<and>
   shutdown_flag (fst (shutdown (fst (shutdown s wait)) wait')) \<and>
   threads (fst (shutdown (fst (shutdown s wait)) wait')) = threads s"
  by (simp add: shutdown_def Let_def)

theorem shutdown_flag_sentinels_joins_witness:
  "shutdown ((pool 2 5 60 [Some job])\<lparr>threads := [worker_thread 1, worker_thread 2]\<rparr>) True =
     ((pool 2 5 60 [Some job, None, None])\<lparr>threads := [worker_thread 1, worker_thread 2],
        shutdown_flag := True\<rparr>, [1, 2])"
  using shutdown_flag_sentinels_joins
    [of "(pool 2 5 60 [Some job])\<lparr>threads := [worker_thread 1, worker_thread 2]\<rparr>" True True]
  by (simp add: pool_def worker_thread_def)

text \<open>
  Claim C6, as stated, ends with: before shutdown, submit enqueues the item and returns
  its future. With a divisor of zero the scaling adjustment raises after the item was
  enqueued, and the submission raises instead of returning the future.
\<close>

theorem submit_zero_divisor_counterexample:
  "\<not> shutdown_flag (pool 2 0 60 []) \<and>
   submit (pool 2 0 60 []) (fn job) (args job) = (Inl ZeroDivisionError, pool 2 0 60 [Some job])"
proof -
  have "\<not> float_limit \<le> \<bar>0 :: int\<bar>"
    by (simp add: float_limit_def)
  then show ?thesis
    by (simp add: submit_def pool_def job_def adjust_thread_count_def optimum_workers_cases
        Let_def)
qed

text \<open>
  Claim C6, amended: a submission after shutdown was initiated raises and leaves the
  executor as it was, so no work item is enqueued; before shutdown, and with a divisor
  that is not zero and that \<^verbatim>\<open>float\<close> can convert, the submission puts the new work
  item at the end of the queue and returns its pending future.
\<close>

theorem submit_after_shutdown_raises:
  "(shutdown_flag s \<longrightarrow> submit s f a = (Inl RuntimeError, s)) \<and>
   (\<not> shutdown_flag s \<and> divisor s \<noteq> 0 \<and> \<bar>divisor s\<bar> < float_limit \<longrightarrow>
      fst (submit s f a) = Inr PENDING \<and>
      work_queue (snd (submit s f a)) =
        work_queue s @ [Some \<lparr>future = PENDING, fn = f, args = a\<rparr>])"
proof (cases "shutdown_flag s")
  case True
  then show ?thesis by (simp add: submit_def)
next
  case False
  let ?s1 = "s\<lparr>work_queue := work_queue s @ [Some \<lparr>future = PENDING, fn = f, args = a\<rparr>]\<rparr>"
  show ?thesis
  proof (cases "adjust_thread_count ?s1")
    case (Inl err)
    from adjust_thread_count_InlD [OF Inl]
    have "divisor s = 0 \<or> float_limit \<le> \<bar>divisor s\<bar>" by simp
    with False show ?thesis by auto
  next
    case (Inr s2)
    from adjust_thread_count_within_max [OF Inr] have "work_queue s2 = work_queue ?s1"
      by simp
    with False Inr show ?thesis by (simp add: submit_def Let_def)
  qed
qed

theorem submit_after_shutdown_raises_witness:
  "shutdown_flag (fst (shutdown (pool 2 5 60 []) True)) \<and>
   submit (fst (shutdown (pool 2 5 60 []) True)) (fn job) (args job) =
     (Inl RuntimeError, fst (shutdown (pool 2 5 60 []) True)) \<and>
   \<not> shutdown_flag (pool 2 5 60 []) \<and> divisor (pool 2 5 60 []) \<noteq> 0 \<and>
   \<bar>divisor (pool 2 5 60 [])\<bar> < float_limit \<and>
   work_queue (snd (submit (pool 2 5 60 []) (fn job) (args job))) = [Some job] \<and>
   fst (submit (pool 2 5 60 []) (fn job) (args job)) = Inr PENDING"
proof -
  have lim: "\<bar>5 :: int\<bar> < float_limit"
    by (simp add: float_limit_def)
  from submit_after_shutdown_raises [of "fst (shutdown (pool 2 5 60 []) True)" "fn job" "args job"]
    submit_after_shutdown_raises [of "pool 2 5 60 []" "fn job" "args job"] lim
  show ?thesis
    by (simp add: shutdown_def pool_def job_def)
qed

end
